theory Spec2Isabelle
  imports Complex_Main "HOL-Library.Log_Nat"
begin

section \<open>The declarative binding engine of app/static/vendor/htmx.js\<close>

text \<open>
  The engine scans the page for elements that carry an \<^verbatim>\<open>hx-get\<close> attribute, registers
  their triggers, and on every firing fetches the declared path and splices the answer
  into a target node.  The functions below follow \<^verbatim>\<open>parseTriggers\<close>, \<^verbatim>\<open>collectParams\<close>,
  \<^verbatim>\<open>resolveTarget\<close>, \<^verbatim>\<open>applySwap\<close>, \<^verbatim>\<open>resolveIndicator\<close>, \<^verbatim>\<open>emitAfterRequest\<close>,
  \<^verbatim>\<open>requestFor\<close>, \<^verbatim>\<open>setupElement\<close> and \<^verbatim>\<open>boot\<close> line by line.

  Conventions.  A JavaScript string is a \<^typ>\<open>string\<close> whose characters are the code units
  U+0000 to U+00FF.  A value that may be \<^verbatim>\<open>null\<close> or \<^verbatim>\<open>undefined\<close> is an \<^typ>\<open>'a option\<close>;
  a string is falsy exactly when it is \<^verbatim>\<open>null\<close> or empty.  What the browser does (selector
  matching, the setters of \<^verbatim>\<open>innerHTML\<close> and \<^verbatim>\<open>outerHTML\<close>, the serialisation of
  \<^verbatim>\<open>URLSearchParams\<close>, the rounding of numbers) is modelled after the web standards;
  the selector engine itself is a parameter of every function that queries the page.
\<close>

subsection \<open>Strings\<close>

text \<open>The white space that \<^verbatim>\<open>String.prototype.trim\<close> removes, among the code units up to U+00FF:
  TAB, LF, VT, FF, CR, SPACE and NO-BREAK SPACE.\<close>

definition is_ws :: "char \<Rightarrow> bool" where
  "is_ws c = (c \<in> set [CHR 0x09, CHR 0x0A, CHR 0x0B, CHR 0x0C, CHR 0x0D, CHR 0x20, CHR 0xA0])"

definition trim :: "string \<Rightarrow> string" where
  "trim s = rev (dropWhile is_ws (rev (dropWhile is_ws s)))"

text \<open>\<^verbatim>\<open>s.split(sep)\<close> for a one-character separator: always at least one piece.\<close>

fun split :: "char \<Rightarrow> string \<Rightarrow> string list" where
  "split sep [] = [[]]"
| "split sep (c # cs) =
     (if c = sep then [] # split sep cs
      else (case split sep cs of [] \<Rightarrow> [[c]] | w # ws \<Rightarrow> (c # w) # ws))"

definition startsWith :: "string \<Rightarrow> string \<Rightarrow> bool" where
  "startsWith s p = (take (length p) s = p)"

text \<open>\<^verbatim>\<open>s.replace(pat, rep)\<close> with a string pattern replaces the first occurrence only.\<close>

fun replace_first :: "string \<Rightarrow> string \<Rightarrow> string \<Rightarrow> string" where
  "replace_first pat rep [] = (if pat = [] then rep else [])"
| "replace_first pat rep (c # cs) =
     (if startsWith (c # cs) pat then rep @ drop (length pat) (c # cs)
      else c # replace_first pat rep cs)"

subsection \<open>Numbers\<close>

text \<open>
  The only numbers the engine computes are \<^verbatim>\<open>Number(match[1])\<close> for an unsigned decimal
  token and its product with 1000.  A Number is an IEEE 754 binary64 value; the ones that
  can arise here are the non-negative finite doubles (kept as the rational they denote)
  and \<^verbatim>\<open>Infinity\<close>.  \<open>to_double\<close> is the Number value for a non-negative rational:
  round to nearest, ties to even, with 53 significant bits, gradual underflow below
  \<open>2\<^sup>-\<^sup>1\<^sup>0\<^sup>2\<^sup>2\<close> and overflow to \<^verbatim>\<open>Infinity\<close>.  (ECMAScript lets an engine round a
  literal of more than 20 significant digits from its first 20; the engines in use round
  the whole literal, as here.)
\<close>

datatype jsnum = Finite rat | Infinity | NaN

definition pow2 :: "int \<Rightarrow> rat" where
  "pow2 k = (if 0 \<le> k then 2 ^ nat k else 1 / 2 ^ nat (- k))"

definition round_half_even :: "rat \<Rightarrow> int" where
  "round_half_even x =
     (let f = \<lfloor>x\<rfloor>; r = x - of_int f
      in if r < 1 / 2 then f else if 1 / 2 < r then f + 1 else if even f then f else f + 1)"

text \<open>The binary exponent of a positive rational: \<open>pow2 (ilog2 x) \<le> x < pow2 (ilog2 x + 1)\<close>.\<close>

definition ilog2 :: "rat \<Rightarrow> int" where
  "ilog2 x = (case quotient_of x of (a, b) \<Rightarrow>
      let k = bitlen a - bitlen b in if pow2 k \<le> x then k else k - 1)"

definition to_double :: "rat \<Rightarrow> jsnum" where
  "to_double x =
     (if x \<le> 0 then Finite 0
      else let e = max (ilog2 x - 52) (- 1074);
               y = of_int (round_half_even (x / pow2 e)) * pow2 e
           in if 2 ^ 1024 \<le> y then Infinity else Finite y)"

text \<open>\<^verbatim>\<open>a * b\<close> on non-negative Numbers: the exact product, rounded once.\<close>

fun js_times :: "jsnum \<Rightarrow> jsnum \<Rightarrow> jsnum" where
  "js_times (Finite a) (Finite b) = to_double (a * b)"
| "js_times (Finite a) Infinity = (if a = 0 then NaN else Infinity)"
| "js_times Infinity (Finite b) = (if b = 0 then NaN else Infinity)"
| "js_times Infinity Infinity = Infinity"
| "js_times NaN _ = NaN"
| "js_times _ NaN = NaN"

definition is_digit :: "char \<Rightarrow> bool" where
  "is_digit c = (c \<in> set ''0123456789'')"

definition digit_val :: "char \<Rightarrow> nat" where
  "digit_val c = of_char c - 48"

definition digits_val :: "string \<Rightarrow> nat" where
  "digits_val ds = foldl (\<lambda>n c. 10 * n + digit_val c) 0 ds"

text \<open>\<^verbatim>\<open>Number(tok)\<close> for a token of the shape \<^verbatim>\<open>\d+(\.\d+)?\<close>, the only shape the engine
  passes: the decimal value of the token, rounded to a double.\<close>

definition Number :: "string \<Rightarrow> jsnum" where
  "Number tok =
     (let ip = takeWhile is_digit tok; fp = drop (Suc (length ip)) tok
      in to_double (of_nat (digits_val ip) + of_nat (digits_val fp) / 10 ^ length fp))"

subsection \<open>Trigger declarations\<close>

definition DEFAULT_TRIGGER :: string where
  "DEFAULT_TRIGGER = ''click''"

definition parseTriggers :: "string option \<Rightarrow> string list" where
  "parseTriggers v =
     (case v of
        None \<Rightarrow> [DEFAULT_TRIGGER]
      | Some s \<Rightarrow>
          if s = [] then [DEFAULT_TRIGGER]
          else filter (\<lambda>entry. entry \<noteq> []) (map trim (split CHR '','' s)))"

text \<open>
  The regular expression \<^verbatim>\<open>/^(\d+(?:\.\d+)?)(ms|s)?$/\<close>.  The result holds the two capture
  groups; the second is \<open>None\<close> when the unit is absent.  Every quantifier of the
  expression is followed by a character it cannot itself match, so the greedy reading
  below is the only way to match.
\<close>

definition interval_match :: "string \<Rightarrow> (string \<times> string option) option" where
  "interval_match raw =
     (let ds = takeWhile is_digit raw; r1 = dropWhile is_digit raw
      in if ds = [] then None
         else let (fr, r2) =
                    (case r1 of
                       [] \<Rightarrow> ([], r1)
                     | c # r \<Rightarrow>
                         if c = CHR ''.'' \<and> takeWhile is_digit r \<noteq> []
                         then (c # takeWhile is_digit r, dropWhile is_digit r)
                         else ([], r1))
              in if r2 = [] then Some (ds @ fr, None)
                 else if r2 = ''ms'' then Some (ds @ fr, Some ''ms'')
                 else if r2 = ''s'' then Some (ds @ fr, Some ''s'')
                 else None)"

text \<open>
  What \<^verbatim>\<open>setupElement\<close> registers for one trigger: a request deferred to
  \<^verbatim>\<open>DOMContentLoaded\<close>, a request issued at once, a timer (\<^verbatim>\<open>setInterval\<close>) with its
  period, or an event listener on the element.  Each of them calls \<^verbatim>\<open>requestFor\<close> on the
  element when it goes off.  (The listener first suppresses the default action of a click
  on an anchor; default actions are not part of the model.)
\<close>

datatype binding = DeferredRequest | ImmediateRequest | Interval jsnum | Listener string

text \<open>The body of the \<^verbatim>\<open>forEach\<close> in \<^verbatim>\<open>setupElement\<close>; \<open>ld\<close> says whether
  \<^verbatim>\<open>document.readyState\<close> is \<^verbatim>\<open>"loading"\<close>.\<close>

definition setupTrigger :: "bool \<Rightarrow> string \<Rightarrow> binding list" where
  "setupTrigger ld trigger =
     (if trigger = ''load'' then (if ld then [DeferredRequest] else [ImmediateRequest])
      else if startsWith trigger ''every '' then
        (case interval_match (trim (replace_first ''every '' [] trigger)) of
           None \<Rightarrow> []
         | Some (num, u) \<Rightarrow>
             let n = Number num;
                 un = (case u of None \<Rightarrow> ''ms'' | Some x \<Rightarrow> x);
                 interval = (if un = ''s'' then js_times n (Finite 1000) else n)
             in [Interval interval])
      else [Listener trigger])"

subsection \<open>The page\<close>

text \<open>
  An element object: its tag name, its attributes (\<^verbatim>\<open>getAttribute\<close> yields \<^verbatim>\<open>null\<close> where
  the map is undefined), and the properties \<^verbatim>\<open>collectParams\<close> reads: \<^verbatim>\<open>disabled\<close> and
  \<^verbatim>\<open>checked\<close> (as truth values), \<^verbatim>\<open>type\<close> and \<^verbatim>\<open>value\<close> (\<open>None\<close> where the property is
  \<^verbatim>\<open>undefined\<close> or \<^verbatim>\<open>null\<close>), and its class list.
\<close>

record element =
  tagName :: string
  attributes :: "string \<rightharpoonup> string"
  disabled :: bool
  el_type :: "string option"
  checked :: bool
  el_value :: "string option"
  classList :: "string list"

text \<open>
  The document tree holds the identities of the attached elements.  \<open>Fragment h\<close> stands
  for the nodes the HTML parser makes of the markup \<open>h\<close> (text included; none for the
  empty string).  An element object outlives its removal from the tree: \<open>elements\<close> keeps
  every object, attached or not.
\<close>

datatype tree = Node nat "tree list" | Fragment string

text \<open>
  A JavaScript value as far as the engine builds one: a string, or an object with its
  properties.  A property that an object does not have reads as \<^verbatim>\<open>undefined\<close>.
\<close>

datatype js_value = Str string | Obj "(string \<times> js_value) list"


text \<open>A \<^verbatim>\<open>CustomEvent\<close>: its type, whether it bubbles, and its detail.\<close>

record custom_event =
  event_type :: string
  bubbles :: bool
  detail :: js_value

text \<open>
  A reference to an element: an element object, or the body (or frameset) element that
  the parser has made of the markup \<open>h\<close> standing as child \<open>k\<close> of the root element.
\<close>

datatype node_ref = Elem nat | Made nat string

text \<open>The calls into the browser that take effect, in the order they are made.\<close>

datatype action =
    ClassAdd nat string
  | ClassRemove nat string
  | Fetch string "(string \<times> string) list"
  | SetInnerHTML nat string
  | SetOuterHTML nat string
  | DispatchEvent node_ref custom_event

text \<open>
  The page: its tree, its element objects, whether \<^verbatim>\<open>document.readyState\<close> is
  \<^verbatim>\<open>"loading"\<close>, and the calls made so far.  \<open>parser_body h\<close> is the body element that the
  HTML parser of the page makes of the markup \<open>h\<close> in the context of the root element.
\<close>

record document =
  root :: tree
  elements :: "nat \<Rightarrow> element"
  parser_body :: "string \<Rightarrow> element"
  loading :: bool
  trace :: "action list"

datatype js_error = SyntaxError | NoModificationAllowedError | RequestError string

text \<open>\<^verbatim>\<open>error.message\<close>.  The wording of the two DOM exceptions is the browser's own; their
  names stand for it here.\<close>

fun message :: "js_error \<Rightarrow> string" where
  "message SyntaxError = ''SyntaxError''"
| "message NoModificationAllowedError = ''NoModificationAllowedError''"
| "message (RequestError m) = m"

text \<open>
  The selector engine, \<^verbatim>\<open>document.querySelectorAll\<close>: the matching elements in tree
  order, or \<open>None\<close> where the browser throws a \<^verbatim>\<open>SyntaxError\<close> for a selector it cannot
  parse.  \<^verbatim>\<open>document.querySelector\<close> is its first result.
\<close>

type_synonym selector_engine = "document \<Rightarrow> string \<Rightarrow> nat list option"

definition querySelector :: "selector_engine \<Rightarrow> document \<Rightarrow> string \<Rightarrow> js_error + nat option" where
  "querySelector qsa d sel =
     (case qsa d sel of
        None \<Rightarrow> Inl SyntaxError
      | Some [] \<Rightarrow> Inr None
      | Some (x # xs) \<Rightarrow> Inr (Some x))"

definition getAttribute :: "document \<Rightarrow> nat \<Rightarrow> string \<Rightarrow> string option" where
  "getAttribute d el k = attributes (elements d el) k"

text \<open>
  \<^verbatim>\<open>document.body\<close> is computed from the tree whenever it is read: the first child of the
  root element, if that is an \<^verbatim>\<open>html\<close> element, which is a \<^verbatim>\<open>body\<close> or \<^verbatim>\<open>frameset\<close>
  element; \<^verbatim>\<open>null\<close> if there is none.  Markup parsed in the context of the root element
  always comes with a body (or frameset) element of its own, so a fragment among the
  children of the root holds one.
\<close>

fun first_body :: "(nat \<Rightarrow> element) \<Rightarrow> nat \<Rightarrow> tree list \<Rightarrow> node_ref option" where
  "first_body els k [] = None"
| "first_body els k (Fragment h # cs) = Some (Made k h)"
| "first_body els k (Node i ks # cs) =
     (if tagName (els i) = ''BODY'' \<or> tagName (els i) = ''FRAMESET'' then Some (Elem i)
      else first_body els (Suc k) cs)"

definition document_body :: "document \<Rightarrow> node_ref option" where
  "document_body d =
     (case root d of
        Fragment h \<Rightarrow> None
      | Node r ks \<Rightarrow>
          if tagName (elements d r) = ''HTML'' then first_body (elements d) 0 ks else None)"

text \<open>\<^verbatim>\<open>getAttribute\<close> on what \<^verbatim>\<open>document.body\<close> has returned.\<close>

definition body_attribute :: "document \<Rightarrow> node_ref \<Rightarrow> string \<Rightarrow> string option" where
  "body_attribute d b k =
     (case b of
        Elem i \<Rightarrow> getAttribute d i k
      | Made n h \<Rightarrow> attributes (parser_body d h) k)"

definition setAttribute :: "document \<Rightarrow> nat \<Rightarrow> string \<Rightarrow> string \<Rightarrow> document" where
  "setAttribute d el k v =
     d\<lparr>elements := (elements d)(el := (elements d el)\<lparr>attributes := (attributes (elements d el))(k \<mapsto> v)\<rparr>)\<rparr>"

definition setupElement :: "document \<Rightarrow> nat \<Rightarrow> binding list" where
  "setupElement d el =
     concat (map (setupTrigger (loading d)) (parseTriggers (getAttribute d el ''hx-trigger'')))"

text \<open>\<^verbatim>\<open>boot\<close>: every element with an \<^verbatim>\<open>hx-get\<close> attribute, with what is registered for it.\<close>

definition boot :: "selector_engine \<Rightarrow> document \<Rightarrow> js_error + (nat \<times> binding list) list" where
  "boot qsa d =
     (case qsa d ''[hx-get]'' of
        None \<Rightarrow> Inl SyntaxError
      | Some els \<Rightarrow> Inr (map (\<lambda>el. (el, setupElement d el)) els))"

subsection \<open>Collecting parameters\<close>

text \<open>The callback of the \<^verbatim>\<open>forEach\<close> in \<^verbatim>\<open>collectParams\<close>; \<open>params\<close> is the
  \<^verbatim>\<open>URLSearchParams\<close> built so far, a list of pairs.\<close>

definition appendParam :: "document \<Rightarrow> (string \<times> string) list \<Rightarrow> nat \<Rightarrow> (string \<times> string) list" where
  "appendParam d params el =
     (let e = elements d el
      in if disabled e then params
         else (case attributes e ''name'' of
                 None \<Rightarrow> params
               | Some name \<Rightarrow>
                   if name = [] then params
                   else if (el_type e = Some ''checkbox'' \<or> el_type e = Some ''radio'') \<and> \<not> checked e
                   then params
                   else params @ [(name, case el_value e of None \<Rightarrow> [] | Some x \<Rightarrow> x)]))"

definition collectParams ::
  "selector_engine \<Rightarrow> document \<Rightarrow> string option \<Rightarrow> js_error + (string \<times> string) list" where
  "collectParams qsa d selector =
     (case selector of
        None \<Rightarrow> Inr []
      | Some s \<Rightarrow>
          if s = [] then Inr []
          else (case qsa d s of
                  None \<Rightarrow> Inl SyntaxError
                | Some els \<Rightarrow> Inr (foldl (appendParam d) [] els)))"

subsection \<open>The query string\<close>

text \<open>
  \<^verbatim>\<open>params.toString()\<close> is the application/x-www-form-urlencoded serialisation: every
  name and value is encoded as UTF-8, a space becomes \<^verbatim>\<open>+\<close>, the bytes of ASCII letters,
  digits and \<^verbatim>\<open>* - . _\<close> stay, every other byte becomes \<^verbatim>\<open>%XX\<close>; the pairs are written
  \<^verbatim>\<open>name=value\<close> and joined by \<^verbatim>\<open>&\<close>.
\<close>

definition hex_digit :: "nat \<Rightarrow> char" where
  "hex_digit n = ''0123456789ABCDEF'' ! (n mod 16)"

definition utf8 :: "char \<Rightarrow> nat list" where
  "utf8 c = (let n = of_char c in if n < 128 then [n] else [192 + n div 64, 128 + n mod 64])"

definition is_unreserved :: "nat \<Rightarrow> bool" where
  "is_unreserved b =
     ((48 \<le> b \<and> b \<le> 57) \<or> (65 \<le> b \<and> b \<le> 90) \<or> (97 \<le> b \<and> b \<le> 122)
      \<or> b = 42 \<or> b = 45 \<or> b = 46 \<or> b = 95)"

definition encode_byte :: "nat \<Rightarrow> string" where
  "encode_byte b =
     (if b = 32 then ''+''
      else if is_unreserved b then [char_of b]
      else [CHR ''%'', hex_digit (b div 16), hex_digit b])"

definition encode :: "string \<Rightarrow> string" where
  "encode s = concat (map encode_byte (concat (map utf8 s)))"

fun join :: "string \<Rightarrow> string list \<Rightarrow> string" where
  "join sep [] = []"
| "join sep [x] = x"
| "join sep (x # y # ys) = x @ sep @ join sep (y # ys)"

definition toString :: "(string \<times> string) list \<Rightarrow> string" where
  "toString params = join ''&'' (map (\<lambda>(n, v). encode n @ ''='' @ encode v) params)"

text \<open>Lines 82 to 86 of \<^verbatim>\<open>requestFor\<close>: the path that is fetched.\<close>

definition finalUrl :: "string \<Rightarrow> (string \<times> string) list \<Rightarrow> string" where
  "finalUrl url params =
     (if toString params \<noteq> [] then
        (let joiner = (if CHR ''?'' \<in> set url then ''&'' else ''?'')
         in url @ joiner @ toString params)
      else url)"

subsection \<open>Target, swap, indicator, notification\<close>

definition resolveTarget :: "selector_engine \<Rightarrow> document \<Rightarrow> nat \<Rightarrow> js_error + nat option" where
  "resolveTarget qsa d el =
     (case getAttribute d el ''hx-target'' of
        None \<Rightarrow> Inr (Some el)
      | Some targetSelector \<Rightarrow>
          if targetSelector = [] then Inr (Some el) else querySelector qsa d targetSelector)"

text \<open>\<^verbatim>\<open>target.innerHTML = html\<close>: the children of the target give way to the parsed markup.
  On a target outside the tree this changes nothing in the tree.  The page has no field for
  \<^verbatim>\<open>document.body\<close>: what it is after an assignment follows from the new tree.\<close>

fun inner_replace :: "nat \<Rightarrow> string \<Rightarrow> tree \<Rightarrow> tree" where
  "inner_replace t h (Fragment s) = Fragment s"
| "inner_replace t h (Node i ks) =
     (if i = t then Node i [Fragment h] else Node i (map (inner_replace t h) ks))"

text \<open>\<^verbatim>\<open>target.outerHTML = html\<close>: the parsed markup takes the place of the target among the
  children of its parent.  By the steps of the setter in the HTML standard, the browser
  does nothing for a target without a parent, and throws \<^verbatim>\<open>NoModificationAllowedError\<close>
  when the parent is the document, that is, when the target is the root element.  A target
  that is not in the tree leaves the tree as it is.\<close>

fun outer_replace :: "nat \<Rightarrow> string \<Rightarrow> tree \<Rightarrow> tree" where
  "outer_replace t h (Fragment s) = Fragment s"
| "outer_replace t h (Node i ks) =
     (if i = t then Fragment h else Node i (map (outer_replace t h) ks))"

definition is_root :: "document \<Rightarrow> nat \<Rightarrow> bool" where
  "is_root d t = (case root d of Node r ks \<Rightarrow> r = t | Fragment s \<Rightarrow> False)"

definition set_innerHTML :: "document \<Rightarrow> nat \<Rightarrow> string \<Rightarrow> document" where
  "set_innerHTML d t h =
     d\<lparr>root := inner_replace t h (root d), trace := trace d @ [SetInnerHTML t h]\<rparr>"

definition set_outerHTML :: "document \<Rightarrow> nat \<Rightarrow> string \<Rightarrow> js_error + document" where
  "set_outerHTML d t h =
     (if is_root d t then Inl NoModificationAllowedError
      else Inr (d\<lparr>root := outer_replace t h (root d), trace := trace d @ [SetOuterHTML t h]\<rparr>))"

definition applySwap :: "document \<Rightarrow> nat option \<Rightarrow> string \<Rightarrow> string \<Rightarrow> js_error + document" where
  "applySwap d target swap html =
     (case target of
        None \<Rightarrow> Inr d
      | Some t \<Rightarrow>
          if swap = ''outerHTML'' then set_outerHTML d t html
          else Inr (set_innerHTML d t html))"

definition resolveIndicator :: "selector_engine \<Rightarrow> document \<Rightarrow> js_error + nat option" where
  "resolveIndicator qsa d =
     (case document_body d of
        None \<Rightarrow> Inr None
      | Some b \<Rightarrow>
          (case body_attribute d b ''hx-indicator'' of
             None \<Rightarrow> Inr None
           | Some selector \<Rightarrow> if selector = [] then Inr None else querySelector qsa d selector))"

definition emitAfterRequest :: "document \<Rightarrow> string \<Rightarrow> string \<Rightarrow> document" where
  "emitAfterRequest d vb pth =
     (let event = \<lparr>event_type = ''htmx:afterRequest'', bubbles = False,
                   detail = Obj [(''requestConfig'', Obj [(''verb'', Str vb), (''path'', Str pth)])]\<rparr>
      in case document_body d of
           None \<Rightarrow> d
         | Some b \<Rightarrow> d\<lparr>trace := trace d @ [DispatchEvent b event]\<rparr>)"

text \<open>\<^verbatim>\<open>indicator?.classList.add(c)\<close> and \<^verbatim>\<open>indicator?.classList.remove(c)\<close>.\<close>

definition classList_add :: "document \<Rightarrow> nat option \<Rightarrow> string \<Rightarrow> document" where
  "classList_add d indicator c =
     (case indicator of
        None \<Rightarrow> d
      | Some i \<Rightarrow>
          let e = elements d i;
              cl = (if c \<in> set (classList e) then classList e else classList e @ [c])
          in d\<lparr>elements := (elements d)(i := e\<lparr>classList := cl\<rparr>),
               trace := trace d @ [ClassAdd i c]\<rparr>)"

definition classList_remove :: "document \<Rightarrow> nat option \<Rightarrow> string \<Rightarrow> document" where
  "classList_remove d indicator c =
     (case indicator of
        None \<Rightarrow> d
      | Some i \<Rightarrow>
          let e = elements d i
          in d\<lparr>elements := (elements d)(i := e\<lparr>classList := filter (\<lambda>x. x \<noteq> c) (classList e)\<rparr>),
               trace := trace d @ [ClassRemove i c]\<rparr>)"

subsection \<open>One firing\<close>

text \<open>
  What \<^verbatim>\<open>fetch\<close> and \<^verbatim>\<open>response.text()\<close> come back with: a rejection carrying the error's
  message (no response, or a body that cannot be read), or a response with its \<^verbatim>\<open>ok\<close>
  flag, its status text and its body.
\<close>

record response =
  ok :: bool
  statusText :: string
  body_text :: string

datatype fetch_outcome = Rejected string | Responded response

text \<open>The local variables of \<^verbatim>\<open>requestFor\<close> that are alive across the \<^verbatim>\<open>await\<close>.\<close>

record pending =
  req_url :: string
  req_target :: "nat option"
  req_swap :: string
  req_indicator :: "nat option"

datatype started = NoRequest | Threw js_error | Awaiting pending

text \<open>
  \<^verbatim>\<open>requestFor\<close> runs in two synchronous stretches.  The first, up to the call of
  \<^verbatim>\<open>fetch\<close>, reads the declaration and marks the indicator; an exception of the selector
  engine leaves it before the \<^verbatim>\<open>try\<close>.
\<close>

definition requestFor_start :: "selector_engine \<Rightarrow> document \<Rightarrow> nat \<Rightarrow> started \<times> document" where
  "requestFor_start qsa d el =
     (case getAttribute d el ''hx-get'' of
        None \<Rightarrow> (NoRequest, d)
      | Some url \<Rightarrow>
          if url = [] then (NoRequest, d)
          else (case collectParams qsa d (getAttribute d el ''hx-include'') of
                  Inl e \<Rightarrow> (Threw e, d)
                | Inr params \<Rightarrow>
                    (case resolveTarget qsa d el of
                       Inl e \<Rightarrow> (Threw e, d)
                     | Inr target \<Rightarrow>
                         let swap = (case getAttribute d el ''hx-swap'' of
                                       None \<Rightarrow> ''innerHTML''
                                     | Some s \<Rightarrow> if s = [] then ''innerHTML'' else s);
                             final = finalUrl url params
                         in (case resolveIndicator qsa d of
                               Inl e \<Rightarrow> (Threw e, d)
                             | Inr indicator \<Rightarrow>
                                 let d1 = classList_add d indicator ''htmx-request'';
                                     d2 = d1\<lparr>trace := trace d1 @ [Fetch final [(''HX-Request'', ''true'')]]\<rparr>
                                 in (Awaiting \<lparr>req_url = final, req_target = target,
                                               req_swap = swap, req_indicator = indicator\<rparr>, d2)))))"

definition warning :: "string \<Rightarrow> string" where
  "warning s = ''<div class=\"warning\">'' @ s @ ''</div>''"

text \<open>The \<^verbatim>\<open>finally\<close> block.\<close>

definition finalizer :: "document \<Rightarrow> pending \<Rightarrow> document" where
  "finalizer d p =
     emitAfterRequest (classList_remove d (req_indicator p) ''htmx-request'') ''get'' (req_url p)"

text \<open>
  The second stretch runs when the request has settled, on the page as it is then: the
  \<^verbatim>\<open>try\<close> block from the answer on, the \<^verbatim>\<open>catch\<close> block for whatever the \<^verbatim>\<open>try\<close> block
  threw, and the \<^verbatim>\<open>finally\<close> block.  The result holds the exception that leaves
  \<^verbatim>\<open>requestFor\<close>, if any.
\<close>

definition requestFor_resume :: "document \<Rightarrow> pending \<Rightarrow> fetch_outcome \<Rightarrow> js_error option \<times> document" where
  "requestFor_resume d p outcome =
     (let tried =
            (case outcome of
               Rejected m \<Rightarrow> Inl (RequestError m)
             | Responded r \<Rightarrow>
                 if \<not> ok r then
                   applySwap d (req_target p) (req_swap p)
                     (warning (if body_text r \<noteq> [] then body_text r else statusText r))
                 else applySwap d (req_target p) (req_swap p) (body_text r));
          caught =
            (case tried of
               Inr d1 \<Rightarrow> Inr d1
             | Inl error \<Rightarrow> applySwap d (req_target p) (req_swap p) (warning (message error)))
      in case caught of
           Inr d1 \<Rightarrow> (None, finalizer d1 p)
         | Inl error \<Rightarrow> (Some error, finalizer d p))"

text \<open>A whole firing on a page that nothing else touches while the request is under way.\<close>

definition requestFor :: "selector_engine \<Rightarrow> document \<Rightarrow> nat \<Rightarrow> fetch_outcome \<Rightarrow> js_error option \<times> document" where
  "requestFor qsa d el outcome =
     (case requestFor_start qsa d el of
        (NoRequest, d1) \<Rightarrow> (None, d1)
      | (Threw e, d1) \<Rightarrow> (Some e, d1)
      | (Awaiting p, d1) \<Rightarrow> requestFor_resume d1 p outcome)"

subsection \<open>The session\<close>

text \<open>
  What lives on after \<^verbatim>\<open>boot\<close>: the page, the registrations that \<^verbatim>\<open>setupElement\<close> has made
  (listeners, timers, and requests deferred to \<^verbatim>\<open>DOMContentLoaded\<close>, each with its
  element, in the order of their registration), and the requests under way.  The engine
  has no code that removes a listener, clears a timer or scans the page again.
\<close>

record session =
  doc :: document
  registry :: "(nat \<times> binding) list"
  inflight :: "pending list"

text \<open>A call of \<^verbatim>\<open>requestFor(el)\<close> by a listener or a timer: its first stretch runs at once;
  an exception in it only rejects the promise that nobody awaits.\<close>

definition fire :: "selector_engine \<Rightarrow> session \<Rightarrow> nat \<Rightarrow> session" where
  "fire qsa s el =
     (case requestFor_start qsa (doc s) el of
        (Awaiting p, d) \<Rightarrow> s\<lparr>doc := d, inflight := inflight s @ [p]\<rparr>
      | (NoRequest, d) \<Rightarrow> s\<lparr>doc := d\<rparr>
      | (Threw e, d) \<Rightarrow> s\<lparr>doc := d\<rparr>)"

text \<open>
  The session that \<^verbatim>\<open>boot\<close> leaves behind: every registration of every element with an
  \<^verbatim>\<open>hx-get\<close> attribute, and the page after the requests that \<^verbatim>\<open>load\<close> triggers have issued
  at once.  (What \<^verbatim>\<open>setupElement\<close> reads is not touched by those requests, so the
  registrations can be taken from the page as \<^verbatim>\<open>boot\<close> found it.)
\<close>

definition booted :: "selector_engine \<Rightarrow> document \<Rightarrow> js_error + session" where
  "booted qsa d =
     (case boot qsa d of
        Inl e \<Rightarrow> Inl e
      | Inr regs \<Rightarrow>
          let made = concat (map (\<lambda>(el, bs). map (Pair el) bs) regs);
              kept = filter (\<lambda>(el, b). b \<noteq> ImmediateRequest) made;
              now = map fst (filter (\<lambda>(el, b). b = ImmediateRequest) made)
          in Inr (foldl (fire qsa) \<lparr>doc = d, registry = kept, inflight = []\<rparr> now))"

text \<open>
  What can happen to a session: an event of some type reaches an element, the timer
  registered at some position goes off, the document has been parsed, another script sets
  an attribute, or a request under way settles.
\<close>

datatype stimulus =
    Dispatched nat string
  | Tick nat
  | ContentLoaded
  | AttributeSet nat string string
  | Settled nat fetch_outcome

fun step :: "selector_engine \<Rightarrow> session \<Rightarrow> stimulus \<Rightarrow> session" where
  "step qsa s (Dispatched el name) =
     foldl (fire qsa) s
       (map fst (filter (\<lambda>(e, b). e = el \<and> b = Listener name) (registry s)))"
| "step qsa s (Tick k) =
     (if k < length (registry s) then
        (case registry s ! k of
           (e, Interval period) \<Rightarrow> fire qsa s e
         | (e, b) \<Rightarrow> s)
      else s)"
| "step qsa s ContentLoaded =
     foldl (fire qsa)
       (s\<lparr>doc := (doc s)\<lparr>loading := False\<rparr>,
          registry := filter (\<lambda>(e, b). b \<noteq> DeferredRequest) (registry s)\<rparr>)
       (map fst (filter (\<lambda>(e, b). b = DeferredRequest) (registry s)))"
| "step qsa s (AttributeSet el k v) = s\<lparr>doc := setAttribute (doc s) el k v\<rparr>"
| "step qsa s (Settled k outcome) =
     (if k < length (inflight s) then
        s\<lparr>doc := snd (requestFor_resume (doc s) (inflight s ! k) outcome),
          inflight := take k (inflight s) @ drop (Suc k) (inflight s)\<rparr>
      else s)"

subsection \<open>Notions used to state the properties\<close>

text \<open>The numeric token \<^verbatim>\<open>\d+(\.\d+)?\<close>: digits, then perhaps a point and more digits.\<close>

definition number_token :: "string \<Rightarrow> bool" where
  "number_token tok =
     (takeWhile is_digit tok \<noteq> [] \<and>
      (case dropWhile is_digit tok of
         [] \<Rightarrow> True
       | c # fs \<Rightarrow> c = CHR ''.'' \<and> fs \<noteq> [] \<and> list_all is_digit fs))"

text \<open>A trigger that starts with \<^verbatim>\<open>every\<close> and a space but does not continue as the
  regular expression demands.\<close>

definition malformed_interval :: "string \<Rightarrow> bool" where
  "malformed_interval t =
     (startsWith t ''every '' \<and> interval_match (trim (replace_first ''every '' [] t)) = None)"

text \<open>A small page for the examples: element 0 is the root, element 1 its only child,
  with elements 2 (holding 3), 4, 5 and 6 below it.  The parser's body elements are
  plain.\<close>

definition blank :: element where
  "blank = \<lparr>tagName = ''DIV'', attributes = Map.empty, disabled = False, el_type = None,
            checked = False, el_value = None, classList = []\<rparr>"

definition declared :: "(string \<times> string) list \<Rightarrow> element" where
  "declared kvs = blank\<lparr>attributes := map_of kvs\<rparr>"

definition page :: "(nat \<Rightarrow> element) \<Rightarrow> document" where
  "page els = \<lparr>root = Node 0 [Node 1 [Node 2 [Node 3 []], Node 4 [], Node 5 [], Node 6 []]],
               elements = els, parser_body = (\<lambda>h. blank\<lparr>tagName := ''BODY''\<rparr>),
               loading = False, trace = []\<rparr>"

text \<open>A selector engine given by a table; a selector outside the table matches nothing.\<close>

definition lookup :: "(string \<times> nat list) list \<Rightarrow> selector_engine" where
  "lookup tbl d s = (case map_of tbl s of None \<Rightarrow> Some [] | Some els \<Rightarrow> Some els)"

text \<open>The controls that contribute a parameter, and what they contribute.\<close>

definition contributes :: "element \<Rightarrow> bool" where
  "contributes e =
     (\<not> disabled e
      \<and> (case attributes e ''name'' of None \<Rightarrow> False | Some n \<Rightarrow> n \<noteq> [])
      \<and> ((el_type e = Some ''checkbox'' \<or> el_type e = Some ''radio'') \<longrightarrow> checked e))"

definition entry :: "element \<Rightarrow> string \<times> string" where
  "entry e =
     (case attributes e ''name'' of None \<Rightarrow> [] | Some n \<Rightarrow> n,
      case el_value e of None \<Rightarrow> [] | Some x \<Rightarrow> x)"

text \<open>Five controls: a text field, an unchecked checkbox, a disabled field, a field whose
  name is empty, and a checked radio button.\<close>

definition form_controls :: "nat \<Rightarrow> element" where
  "form_controls =
     (\<lambda>i. blank)
     (2 := (declared [(''name'', ''q'')])
             \<lparr>tagName := ''INPUT'', el_type := Some ''text'', el_value := Some ''tea''\<rparr>,
      3 := (declared [(''name'', ''agree''), (''value'', ''yes'')])
             \<lparr>tagName := ''INPUT'', el_type := Some ''checkbox'', el_value := Some ''yes''\<rparr>,
      4 := (declared [(''name'', ''off'')])
             \<lparr>tagName := ''INPUT'', el_type := Some ''text'', el_value := Some ''x'',
               disabled := True\<rparr>,
      5 := (declared [(''name'', [])])
             \<lparr>tagName := ''INPUT'', el_type := Some ''text'', el_value := Some ''x''\<rparr>,
      6 := (declared [(''name'', ''size'')])
             \<lparr>tagName := ''INPUT'', el_type := Some ''radio'', el_value := Some ''L'',
               checked := True\<rparr>)"

text \<open>The swap strategy a firing uses: the \<^verbatim>\<open>hx-swap\<close> attribute, or \<^verbatim>\<open>innerHTML\<close>.\<close>

definition swap_attr :: "document \<Rightarrow> nat \<Rightarrow> string" where
  "swap_attr d el =
     (case getAttribute d el ''hx-swap'' of
        None \<Rightarrow> ''innerHTML''
      | Some s \<Rightarrow> if s = [] then ''innerHTML'' else s)"

text \<open>The markup a settled request puts into the target.\<close>

definition rendered :: "fetch_outcome \<Rightarrow> string" where
  "rendered outcome =
     (case outcome of
        Rejected m \<Rightarrow> warning m
      | Responded r \<Rightarrow>
          if ok r then body_text r
          else warning (if body_text r \<noteq> [] then body_text r else statusText r))"

fun is_swap :: "action \<Rightarrow> bool" where
  "is_swap (SetInnerHTML t h) = True"
| "is_swap (SetOuterHTML t h) = True"
| "is_swap a = False"

text \<open>The event of \<^verbatim>\<open>emitAfterRequest("get", pth)\<close>, and what the \<^verbatim>\<open>finally\<close> block does for
  the request \<open>p\<close> on a page whose body is that of \<open>d\<close>.\<close>

definition afterRequest :: "string \<Rightarrow> custom_event" where
  "afterRequest pth =
     \<lparr>event_type = ''htmx:afterRequest'', bubbles = False,
      detail = Obj [(''requestConfig'', Obj [(''verb'', Str ''get''), (''path'', Str pth)])]\<rparr>"

definition finalizer_actions :: "document \<Rightarrow> pending \<Rightarrow> action list" where
  "finalizer_actions d p =
     (case req_indicator p of None \<Rightarrow> [] | Some i \<Rightarrow> [ClassRemove i ''htmx-request''])
     @ (case document_body d of
          None \<Rightarrow> []
        | Some b \<Rightarrow> [DispatchEvent b (afterRequest (req_url p))])"

text \<open>Positions in the tree: the identities in it, the subtree at a path of child indices,
  and the tree with the subtree at a path exchanged.\<close>

fun ids :: "tree \<Rightarrow> nat list" where
  "ids (Fragment s) = []"
| "ids (Node i ks) = i # concat (map ids ks)"

fun subtree :: "tree \<Rightarrow> nat list \<Rightarrow> tree option" where
  "subtree t [] = Some t"
| "subtree (Node i ks) (n # ns) = (if n < length ks then subtree (ks ! n) ns else None)"
| "subtree (Fragment s) (n # ns) = None"

fun replace_at :: "tree \<Rightarrow> nat list \<Rightarrow> tree \<Rightarrow> tree" where
  "replace_at new [] t = new"
| "replace_at new (n # ns) (Node i ks) =
     (if n < length ks then Node i (ks[n := replace_at new ns (ks ! n)]) else Node i ks)"
| "replace_at new (n # ns) (Fragment s) = Fragment s"

text \<open>
  The example page: element 0 is the \<^verbatim>\<open>html\<close> element and element 1 the body, which names
  \<^verbatim>\<open>#spinner\<close> (element 5) as indicator; element 2 declares a request to \<^verbatim>\<open>/items\<close> that
  includes the text field 3 and swaps into \<^verbatim>\<open>#out\<close> (element 4).
\<close>

definition demo_elements :: "nat \<Rightarrow> element" where
  "demo_elements =
     (\<lambda>i. blank)
     (0 := blank\<lparr>tagName := ''HTML''\<rparr>,
      1 := (declared [(''hx-indicator'', ''#spinner'')])\<lparr>tagName := ''BODY''\<rparr>,
      2 := declared [(''hx-get'', ''/items''), (''hx-include'', ''input''), (''hx-target'', ''#out'')],
      3 := (declared [(''name'', ''q'')])
             \<lparr>tagName := ''INPUT'', el_type := Some ''text'', el_value := Some ''tea''\<rparr>)"

definition demo :: document where
  "demo = page demo_elements"

definition demo_engine :: selector_engine where
  "demo_engine =
     lookup [(''[hx-get]'', [2]), (''input'', [3]), (''#out'', [4]), (''#spinner'', [5]),
             (''body'', [1])]"

definition answer :: "bool \<Rightarrow> string \<Rightarrow> string \<Rightarrow> fetch_outcome" where
  "answer k st b = Responded \<lparr>ok = k, statusText = st, body_text = b\<rparr>"

definition demo_request :: pending where
  "demo_request = \<lparr>req_url = ''/items?q=tea'', req_target = Some 4, req_swap = ''innerHTML'',
                    req_indicator = Some 5\<rparr>"

text \<open>The example page with the body as target of an \<^verbatim>\<open>outerHTML\<close> swap, and the request
  its firing leaves under way.\<close>

definition body_demo :: document where
  "body_demo = setAttribute (setAttribute demo 2 ''hx-target'' ''body'') 2 ''hx-swap'' ''outerHTML''"

definition body_request :: pending where
  "body_request = \<lparr>req_url = ''/items?q=tea'', req_target = Some 1, req_swap = ''outerHTML'',
                    req_indicator = Some 5\<rparr>"

section \<open>Properties\<close>

subsection \<open>Triggers\<close>

lemma span_digits:
  "\<forall>x\<in>set xs. P x \<Longrightarrow> ys = [] \<or> \<not> P (hd ys) \<Longrightarrow>
   takeWhile P (xs @ ys) = xs \<and> dropWhile P (xs @ ys) = ys"
  by (cases ys) (auto simp: takeWhile_append2 dropWhile_append2)

lemma startsWith_replace_first:
  "startsWith t p \<Longrightarrow> replace_first p [] t = drop (length p) t"
  by (cases t) (auto simp: startsWith_def)

lemma every_not_load: "startsWith t ''every '' \<Longrightarrow> t \<noteq> ''load''"
  by (auto simp: startsWith_def)

lemma number_token_split:
  assumes "number_token num"
  obtains ds where "num = ds" "ds \<noteq> []" "\<forall>x\<in>set ds. is_digit x"
  | ds fs where "num = ds @ CHR ''.'' # fs" "ds \<noteq> []" "\<forall>x\<in>set ds. is_digit x"
      "fs \<noteq> []" "\<forall>x\<in>set fs. is_digit x"
proof -
  let ?ds = "takeWhile is_digit num" and ?r = "dropWhile is_digit num"
  have id: "num = ?ds @ ?r" by simp
  have dig: "\<forall>x\<in>set ?ds. is_digit x" by (auto dest: set_takeWhileD)
  from assms have ne: "?ds \<noteq> []" by (simp add: number_token_def)
  show thesis
  proof (cases ?r)
    case Nil
    with id have "num = ?ds" by simp
    then show thesis using ne dig that(1) by blast
  next
    case (Cons c fs)
    with assms have "c = CHR ''.''" "fs \<noteq> []" "\<forall>x\<in>set fs. is_digit x"
      by (auto simp: number_token_def list_all_iff)
    moreover from id Cons have "num = ?ds @ c # fs" by simp
    ultimately show thesis using ne dig that(2) by blast
  qed
qed

lemma number_token_digits: "ds \<noteq> [] \<Longrightarrow> \<forall>x\<in>set ds. is_digit x \<Longrightarrow> number_token ds"
  by (simp add: number_token_def takeWhile_eq_all_conv[THEN iffD2] dropWhile_eq_Nil_conv[THEN iffD2])

lemma number_token_fraction:
  assumes "ds \<noteq> []" "\<forall>x\<in>set ds. is_digit x" "fs \<noteq> []" "\<forall>x\<in>set fs. is_digit x"
  shows "number_token (ds @ CHR ''.'' # fs)"
proof -
  have "takeWhile is_digit (ds @ CHR ''.'' # fs) = ds
        \<and> dropWhile is_digit (ds @ CHR ''.'' # fs) = CHR ''.'' # fs"
    using span_digits[of ds is_digit "CHR ''.'' # fs"] assms(2) by (simp add: is_digit_def)
  then show ?thesis using assms by (simp add: number_token_def list_all_iff)
qed

text \<open>The matcher accepts exactly the strings \<^verbatim>\<open>\d+(\.\d+)?(ms|s)?\<close> and captures the
  number and the unit.\<close>

lemma interval_match_complete:
  assumes "number_token num" "u \<in> {[], ''ms'', ''s''}"
  shows "interval_match (num @ u) = Some (num, if u = [] then None else Some u)"
proof -
  have u: "u = [] \<or> \<not> is_digit (hd u)" using assms(2) by (auto simp: is_digit_def)
  have dot: "\<not> is_digit CHR ''.''" by (simp add: is_digit_def)
  from assms(1) show ?thesis
  proof (cases rule: number_token_split)
    case (1 ds)
    then have "takeWhile is_digit (num @ u) = ds \<and> dropWhile is_digit (num @ u) = u"
      using span_digits[of ds is_digit u] u by simp
    then show ?thesis using 1 assms(2) by (auto simp: interval_match_def)
  next
    case (2 ds fs)
    then have a: "takeWhile is_digit (num @ u) = ds
                  \<and> dropWhile is_digit (num @ u) = CHR ''.'' # fs @ u"
      using span_digits[of ds is_digit "CHR ''.'' # fs @ u"] dot by simp
    have b: "takeWhile is_digit (fs @ u) = fs \<and> dropWhile is_digit (fs @ u) = u"
      using span_digits[of fs is_digit u] u 2 by simp
    show ?thesis using a b 2 assms(2) by (auto simp: interval_match_def)
  qed
qed

lemma interval_match_sound:
  assumes "interval_match raw = Some (num, uo)"
  shows "number_token num \<and> raw = num @ (case uo of None \<Rightarrow> [] | Some u \<Rightarrow> u)
         \<and> uo \<in> {None, Some ''ms'', Some ''s''}"
proof -
  let ?ds = "takeWhile is_digit raw" and ?r1 = "dropWhile is_digit raw"
  have id: "raw = ?ds @ ?r1" by simp
  have dig: "\<forall>x\<in>set ?ds. is_digit x" by (auto dest: set_takeWhileD)
  from assms have ne: "?ds \<noteq> []" by (auto simp: interval_match_def Let_def split: if_splits)
  show ?thesis
  proof (cases "\<exists>r. ?r1 = CHR ''.'' # r \<and> takeWhile is_digit r \<noteq> []")
    case True
    then obtain r where r: "?r1 = CHR ''.'' # r" "takeWhile is_digit r \<noteq> []" by blast
    let ?fs = "takeWhile is_digit r" and ?r2 = "dropWhile is_digit r"
    from assms r ne have num: "num = ?ds @ CHR ''.'' # ?fs"
      and uo: "?r2 = (case uo of None \<Rightarrow> [] | Some u \<Rightarrow> u)" "uo \<in> {None, Some ''ms'', Some ''s''}"
      by (auto simp: interval_match_def Let_def split: if_splits)
    have "raw = ?ds @ CHR ''.'' # ?fs @ ?r2" using id r(1) by simp
    moreover have "number_token num"
      unfolding num using ne dig r(2) by (intro number_token_fraction) (auto dest: set_takeWhileD)
    ultimately show ?thesis using num uo by simp
  next
    case False
    then have "(case ?r1 of [] \<Rightarrow> ([], ?r1)
                | c # r \<Rightarrow> if c = CHR ''.'' \<and> takeWhile is_digit r \<noteq> []
                           then (c # takeWhile is_digit r, dropWhile is_digit r)
                           else ([], ?r1)) = ([], ?r1)"
      by (auto split: list.splits)
    with assms ne have num: "num = ?ds"
      and uo: "?r1 = (case uo of None \<Rightarrow> [] | Some u \<Rightarrow> u)" "uo \<in> {None, Some ''ms'', Some ''s''}"
      by (auto simp: interval_match_def Let_def split: if_splits)
    have "number_token num" unfolding num using ne dig by (rule number_token_digits)
    then show ?thesis using id num uo by simp
  qed
qed

lemma setupTrigger_interval:
  assumes "startsWith t ''every ''" "trim (drop 6 t) = num @ u" "number_token num"
    "u \<in> {[], ''ms'', ''s''}"
  shows "setupTrigger ld t =
           [Interval (if u = ''s'' then js_times (Number num) (Finite 1000) else Number num)]"
proof -
  have "replace_first ''every '' [] t = drop 6 t"
    using startsWith_replace_first[OF assms(1)] by (simp add: eval_nat_numeral)
  then have "interval_match (trim (replace_first ''every '' [] t))
               = Some (num, if u = [] then None else Some u)"
    using interval_match_complete[OF assms(3,4)] assms(2) by simp
  then show ?thesis
    using assms(1,4) every_not_load[OF assms(1)] by (auto simp: setupTrigger_def)
qed

lemma setupTrigger_malformed:
  assumes "startsWith t ''every ''"
    "\<not> (\<exists>num u. number_token num \<and> u \<in> {[], ''ms'', ''s''} \<and> trim (drop 6 t) = num @ u)"
  shows "setupTrigger ld t = []"
proof -
  have r: "replace_first ''every '' [] t = drop 6 t"
    using startsWith_replace_first[OF assms(1)] by (simp add: eval_nat_numeral)
  have "interval_match (trim (drop 6 t)) = None"
  proof (rule ccontr)
    assume "interval_match (trim (drop 6 t)) \<noteq> None"
    then obtain num uo where "interval_match (trim (drop 6 t)) = Some (num, uo)" by auto
    from interval_match_sound[OF this] assms(2) show False
      by (cases uo) auto
  qed
  then show ?thesis using assms(1) every_not_load[OF assms(1)] r by (simp add: setupTrigger_def)
qed

lemma setupTrigger_length:
  "length (setupTrigger ld t) = (if malformed_interval t then 0 else 1)"
  using every_not_load[of t]
  by (auto simp: setupTrigger_def malformed_interval_def Let_def split: option.splits)

lemma length_concat_setup:
  "length (concat (map (setupTrigger ld) ts)) = length (filter (\<lambda>t. \<not> malformed_interval t) ts)"
  by (induction ts) (simp_all add: setupTrigger_length)

lemma concat_segments:
  "concat (map f (filter (\<lambda>x. x \<noteq> []) (map g xs)))
     = concat (map (\<lambda>x. if g x = [] then [] else f (g x)) xs)"
  by (induction xs) simp_all

text \<open>
  Claim C1, as the code has it.  A missing or empty \<^verbatim>\<open>hx-trigger\<close> registers the single
  click listener.  Otherwise every comma-separated segment that is not empty after
  trimming registers exactly one descriptor, except a malformed \<^verbatim>\<open>every\<close> segment, which
  registers none; the descriptors stand in the order of their segments, and something is
  registered whenever at least one segment is neither blank nor a malformed interval.
  Nothing falls back to the click listener once the attribute is a non-empty string.
\<close>

theorem trigger_descriptors:
  "(getAttribute d el ''hx-trigger'' = None \<or> getAttribute d el ''hx-trigger'' = Some []
      \<longrightarrow> setupElement d el = [Listener ''click''])
   \<and> (\<forall>s. getAttribute d el ''hx-trigger'' = Some s \<and> s \<noteq> []
        \<longrightarrow> setupElement d el =
              concat (map (\<lambda>seg. if trim seg = [] then [] else setupTrigger (loading d) (trim seg))
                        (split CHR '','' s)))
   \<and> (\<forall>t. length (setupTrigger (loading d) t) = (if malformed_interval t then 0 else 1))
   \<and> (\<forall>s. getAttribute d el ''hx-trigger'' = Some s
          \<and> (\<exists>seg\<in>set (split CHR '','' s). trim seg \<noteq> [] \<and> \<not> malformed_interval (trim seg))
        \<longrightarrow> setupElement d el \<noteq> [])"
proof (intro conjI allI impI)
  assume "getAttribute d el ''hx-trigger'' = None \<or> getAttribute d el ''hx-trigger'' = Some []"
  then have "parseTriggers (getAttribute d el ''hx-trigger'') = [''click'']"
    by (auto simp: parseTriggers_def DEFAULT_TRIGGER_def)
  then show "setupElement d el = [Listener ''click'']"
    by (simp add: setupElement_def setupTrigger_def startsWith_def)
next
  fix s
  assume "getAttribute d el ''hx-trigger'' = Some s \<and> s \<noteq> []"
  then show "setupElement d el =
              concat (map (\<lambda>seg. if trim seg = [] then [] else setupTrigger (loading d) (trim seg))
                        (split CHR '','' s))"
    by (simp add: setupElement_def parseTriggers_def concat_segments)
next
  fix t
  show "length (setupTrigger (loading d) t) = (if malformed_interval t then 0 else 1)"
    by (rule setupTrigger_length)
next
  fix s
  assume a: "getAttribute d el ''hx-trigger'' = Some s
          \<and> (\<exists>seg\<in>set (split CHR '','' s). trim seg \<noteq> [] \<and> \<not> malformed_interval (trim seg))"
  then obtain seg where seg: "seg \<in> set (split CHR '','' s)" "trim seg \<noteq> []"
      "\<not> malformed_interval (trim seg)" by blast
  have "s \<noteq> []" using seg by (auto simp: trim_def)
  then have "trim seg \<in> set (parseTriggers (getAttribute d el ''hx-trigger''))"
    using a seg by (auto simp: parseTriggers_def)
  then have "filter (\<lambda>t. \<not> malformed_interval t)
               (parseTriggers (getAttribute d el ''hx-trigger'')) \<noteq> []"
    using seg(3) by (auto simp: filter_empty_conv)
  then have "length (setupElement d el) \<noteq> 0"
    by (simp add: setupElement_def length_concat_setup)
  then show "setupElement d el \<noteq> []" by auto
qed

text \<open>The declaration \<^verbatim>\<open>hx-trigger="every abc"\<close> registers nothing at all: the claim's
  fallback to the click listener does not exist for it.\<close>

theorem trigger_descriptors_counterexample:
  "setupElement
     (page ((\<lambda>i. blank)(2 := declared [(''hx-get'', ''/x''), (''hx-trigger'', ''every abc'')]))) 2
   = []"
  by (simp add: setupElement_def getAttribute_def page_def declared_def parseTriggers_def
      trim_def is_ws_def setupTrigger_def startsWith_def interval_match_def is_digit_def)

theorem trigger_descriptors_witness:
  "setupElement (page ((\<lambda>i. blank)(2 := declared [(''hx-get'', ''/x'')]))) 2 = [Listener ''click'']
   \<and> setupElement (page ((\<lambda>i. blank)(2 := declared [(''hx-trigger'', ''every abc, load'')]))) 2
       = [ImmediateRequest]"
proof -
  let ?d1 = "page ((\<lambda>i. blank)(2 := declared [(''hx-get'', ''/x'')]))"
  let ?d2 = "page ((\<lambda>i. blank)(2 := declared [(''hx-trigger'', ''every abc, load'')]))"
  have g1: "getAttribute ?d1 2 ''hx-trigger'' = None"
    by (simp add: getAttribute_def page_def declared_def)
  have g2: "getAttribute ?d2 2 ''hx-trigger'' = Some ''every abc, load''"
    by (simp add: getAttribute_def page_def declared_def)
  have ld: "loading ?d2 = False" by (simp add: page_def)
  have sp: "split CHR '','' ''every abc, load'' = [''every abc'', '' load'']" by simp
  have t: "trim ''every abc'' = ''every abc''" "trim '' load'' = ''load''"
    by (simp_all add: trim_def is_ws_def)
  have m: "malformed_interval ''every abc''"
    by (simp add: malformed_interval_def startsWith_def trim_def is_ws_def interval_match_def
        is_digit_def)
  have l: "setupTrigger False ''load'' = [ImmediateRequest]" by (simp add: setupTrigger_def)
  note c = trigger_descriptors[of ?d1 2] and e = trigger_descriptors[of ?d2 2]
  from c g1 have a: "setupElement ?d1 2 = [Listener ''click'']" by blast
  from e have len: "length (setupTrigger (loading ?d2) ''every abc'')
                      = (if malformed_interval ''every abc'' then 0 else 1)" by blast
  then have none: "setupTrigger False ''every abc'' = []" using m ld by simp
  from e g2 have "setupElement ?d2 2 =
     concat (map (\<lambda>seg. if trim seg = [] then [] else setupTrigger (loading ?d2) (trim seg))
               (split CHR '','' ''every abc, load''))" by blast
  then have b: "setupElement ?d2 2 = [ImmediateRequest]"
    unfolding sp ld by (simp add: t none l)
  from a b show ?thesis by simp
qed

lemma round_half_even_int: "round_half_even (of_int m) = m"
  by (simp add: round_half_even_def)

lemma ilog2_nat:
  assumes "0 < n"
  shows "ilog2 (of_nat n) = bitlen (int n) - 1"
proof -
  have q: "quotient_of (of_nat n :: rat) = (int n, 1)"
    using quotient_of_int[of "int n"] by (simp add: Rat.of_int_def)
  have b1: "bitlen 1 = 1" by (simp add: bitlen_alt_def)
  have pos: "0 < int n" using assms by simp
  from bitlen_bounds[OF pos] have lo: "2 ^ nat (bitlen (int n) - 1) \<le> int n" by simp
  have k: "0 \<le> bitlen (int n) - 1" using pos by (auto simp: bitlen_alt_def)
  have "(2::rat) ^ nat (bitlen (int n) - 1) \<le> of_int (int n)"
    using lo by (metis of_int_le_iff of_int_numeral of_int_power)
  then have "pow2 (bitlen (int n) - 1) \<le> of_nat n" using k by (simp add: pow2_def)
  then show ?thesis by (simp add: ilog2_def q b1)
qed

text \<open>Whole numbers below \<open>2\<^sup>5\<^sup>3\<close> are doubles: rounding leaves them alone.\<close>

lemma to_double_nat:
  assumes "n < 2 ^ 53"
  shows "to_double (of_nat n) = Finite (of_nat n)"
proof (cases "n = 0")
  case True
  then show ?thesis by (simp add: to_double_def)
next
  case False
  then have pos: "0 < n" by simp
  define k where "k = bitlen (int n) - 1"
  have il: "ilog2 (of_nat n) = k" using ilog2_nat[OF pos] by (simp add: k_def)
  have ipos: "0 < int n" using pos by simp
  have k0: "0 \<le> k" using ipos by (auto simp: k_def bitlen_alt_def)
  from bitlen_bounds[OF ipos] have "2 ^ nat k \<le> int n" by (simp add: k_def)
  also have "int n < 2 ^ 53" using assms by (metis of_nat_less_iff of_nat_numeral of_nat_power)
  finally have "(2::int) ^ nat k < 2 ^ 53" .
  then have "nat k < 53" by (rule power_less_imp_less_exp[of "2::int", rotated]) simp
  then have k52: "k \<le> 52" by simp
  define j where "j = nat (52 - k)"
  have e: "max (k - 52) (- 1074) = - int j" using k0 k52 by (simp add: j_def)
  have p: "pow2 (- int j) = 1 / 2 ^ j" by (auto simp: pow2_def)
  have m: "of_nat n / pow2 (- int j) = (of_int (int n * 2 ^ j) :: rat)" by (simp add: p)
  have y: "of_int (int n * 2 ^ j) * pow2 (- int j) = (of_nat n :: rat)" by (simp add: p)
  have "(of_nat n :: rat) < 2 ^ 53" using assms by (metis of_nat_less_iff of_nat_numeral of_nat_power)
  also have "\<dots> < 2 ^ 1024" by simp
  finally have lt: "\<not> 2 ^ 1024 \<le> (of_nat n :: rat)" by simp
  have "\<not> (of_nat n :: rat) \<le> 0" using pos by simp
  then show ?thesis
    unfolding to_double_def il e Let_def m round_half_even_int y using lt by simp
qed

lemma Number_digits:
  assumes "\<forall>c\<in>set ds. is_digit c" "digits_val ds < 2 ^ 53"
  shows "Number ds = Finite (of_nat (digits_val ds))"
proof -
  have tw: "takeWhile is_digit ds = ds" using assms(1) by (simp add: takeWhile_eq_all_conv)
  have z: "digits_val [] = 0" by (simp add: digits_val_def)
  have "Number ds = to_double (of_nat (digits_val ds))"
    unfolding Number_def Let_def tw by (simp add: z)
  then show ?thesis using to_double_nat[OF assms(2)] by simp
qed

lemma setupTrigger_whole:
  assumes "startsWith t ''every ''" "trim (drop 6 t) = ds @ u" "ds \<noteq> []"
    "\<forall>c\<in>set ds. is_digit c" "u \<in> {[], ''ms'', ''s''}" "digits_val ds * 1000 < 2 ^ 53"
  shows "setupTrigger ld t =
           [Interval (Finite (of_nat (if u = ''s'' then digits_val ds * 1000 else digits_val ds)))]"
proof -
  have small: "digits_val ds < 2 ^ 53" using assms(6) by simp
  have n: "Number ds = Finite (of_nat (digits_val ds))"
    using Number_digits[OF assms(4) small] .
  have "to_double (of_nat (digits_val ds * 1000)) = Finite (of_nat (digits_val ds * 1000))"
    using to_double_nat[OF assms(6)] .
  then have t: "js_times (Number ds) (Finite 1000) = Finite (of_nat (digits_val ds * 1000))"
    by (simp add: n)
  have "number_token ds" using assms(3,4) by (rule number_token_digits)
  from setupTrigger_interval[OF assms(1,2) this assms(5)] show ?thesis
    using n t by simp
qed

text \<open>
  Claim C4.  A trigger \<^verbatim>\<open>every <number><unit?>\<close> (white space around the number and unit
  is trimmed away) registers one timer.  Its period is \<^verbatim>\<open>Number(number) * 1000\<close> when the
  unit is \<^verbatim>\<open>s\<close> and \<^verbatim>\<open>Number(number)\<close> when the unit is \<^verbatim>\<open>ms\<close> or absent, in the
  arithmetic of JavaScript Numbers; for a whole number of at most \<open>2\<^sup>5\<^sup>3 / 1000\<close> this is
  exactly the number times 1000, or the number itself.  A trigger that starts with
  \<^verbatim>\<open>every\<close> and a space and does not continue this way registers nothing.
\<close>

theorem interval_period:
  "(\<forall>ld t num u.
      startsWith t ''every '' \<and> trim (drop 6 t) = num @ u \<and> number_token num
        \<and> u \<in> {[], ''ms'', ''s''}
      \<longrightarrow> setupTrigger ld t =
            [Interval (if u = ''s'' then js_times (Number num) (Finite 1000) else Number num)])
   \<and> (\<forall>ld t ds u.
        startsWith t ''every '' \<and> trim (drop 6 t) = ds @ u \<and> ds \<noteq> [] \<and> (\<forall>c\<in>set ds. is_digit c)
          \<and> u \<in> {[], ''ms'', ''s''} \<and> digits_val ds * 1000 < 2 ^ 53
        \<longrightarrow> setupTrigger ld t =
              [Interval (Finite (of_nat (if u = ''s'' then digits_val ds * 1000 else digits_val ds)))])
   \<and> (\<forall>ld t.
        startsWith t ''every ''
          \<and> \<not> (\<exists>num u. number_token num \<and> u \<in> {[], ''ms'', ''s''} \<and> trim (drop 6 t) = num @ u)
        \<longrightarrow> setupTrigger ld t = [])"
  using setupTrigger_interval setupTrigger_whole setupTrigger_malformed by blast

lemma digits_val_examples: "digits_val ''2'' = 2" "digits_val ''500'' = 500"
  by code_simp+

lemma Number_fraction: "Number ''1.5'' = Finite (3 / 2)"
  by code_simp

lemma to_double_1500: "to_double 1500 = Finite 1500"
  by code_simp

theorem interval_period_witness:
  "setupTrigger False ''every 2s'' = [Interval (Finite 2000)]
   \<and> setupTrigger False ''every 500ms'' = [Interval (Finite 500)]
   \<and> setupTrigger False ''every 500'' = [Interval (Finite 500)]
   \<and> setupTrigger False ''every 1.5s'' = [Interval (Finite 1500)]
   \<and> setupTrigger False ''every abc'' = []"
proof -
  have sw: "startsWith ''every 2s'' ''every ''" "startsWith ''every 500ms'' ''every ''"
    "startsWith ''every 500'' ''every ''" "startsWith ''every abc'' ''every ''"
    "startsWith ''every 1.5s'' ''every ''"
    by (simp_all add: startsWith_def)
  have tr: "trim (drop 6 ''every 2s'') = ''2'' @ ''s''"
    "trim (drop 6 ''every 500ms'') = ''500'' @ ''ms''"
    "trim (drop 6 ''every 500'') = ''500'' @ []" "trim (drop 6 ''every abc'') = ''abc''"
    "trim (drop 6 ''every 1.5s'') = ''1.5'' @ ''s''"
    by (simp_all add: trim_def is_ws_def)
  have dg: "\<forall>c\<in>set ''2''. is_digit c" "\<forall>c\<in>set ''500''. is_digit c"
    by (simp_all add: is_digit_def)
  have nt: "number_token ''1.5''" by (simp add: number_token_def is_digit_def)
  have bad: "\<not> (\<exists>num u. number_token num \<and> u \<in> {[], ''ms'', ''s''} \<and> ''abc'' = num @ u)"
    by (auto simp: number_token_def is_digit_def append_eq_Cons_conv Cons_eq_append_conv)
  note float = interval_period[THEN conjunct1, rule_format]
  note whole = interval_period[THEN conjunct2, THEN conjunct1, rule_format]
  note none = interval_period[THEN conjunct2, THEN conjunct2, rule_format]
  have a: "setupTrigger False ''every 2s'' = [Interval (Finite 2000)]"
    using whole[of "''every 2s''" "''2''" "''s''" False] sw(1) tr(1) dg(1)
    by (simp add: digits_val_examples)
  have b: "setupTrigger False ''every 500ms'' = [Interval (Finite 500)]"
    using whole[of "''every 500ms''" "''500''" "''ms''" False] sw(2) tr(2) dg(2)
    by (simp add: digits_val_examples)
  have c: "setupTrigger False ''every 500'' = [Interval (Finite 500)]"
    using whole[of "''every 500''" "''500''" "[]" False] sw(3) tr(3) dg(2)
    by (simp add: digits_val_examples)
  have d: "setupTrigger False ''every 1.5s'' = [Interval (Finite 1500)]"
    using float[of "''every 1.5s''" "''1.5''" "''s''" False] sw(5) tr(5) nt
    by (simp add: Number_fraction to_double_1500)
  have e: "setupTrigger False ''every abc'' = []"
    using none[of "''every abc''" False] sw(4) tr(4) bad by simp
  from a b c d e show ?thesis by simp
qed

subsection \<open>Parameters and the request path\<close>

lemma appendParam_step:
  "appendParam d params el =
     params @ (if contributes (elements d el) then [entry (elements d el)] else [])"
  by (auto simp: appendParam_def contributes_def entry_def Let_def split: option.splits)

lemma collect_loop:
  "foldl (appendParam d) acc els =
     acc @ map (\<lambda>i. entry (elements d i)) (filter (\<lambda>i. contributes (elements d i)) els)"
  by (induction els arbitrary: acc) (simp_all add: appendParam_step)

text \<open>
  Claim C5, as the code has it.  Without an include selector the parameter set is empty.
  For a selector the engine accepts, the parameter set consists of the pairs (name,
  current value) of the matching controls that contribute, in the order in which the
  engine lists the matches (tree order); the value is the empty string where the control
  has none.  A control contributes unless it is disabled, or is a checkbox or radio
  button that is not checked, or has no name attribute, or has an empty one.
\<close>

theorem collected_parameters:
  "collectParams qsa d None = Inr []
   \<and> collectParams qsa d (Some []) = Inr []
   \<and> (s \<noteq> [] \<and> qsa d s = None \<longrightarrow> collectParams qsa d (Some s) = Inl SyntaxError)
   \<and> (s \<noteq> [] \<and> qsa d s = Some els \<longrightarrow>
        collectParams qsa d (Some s) =
          Inr (map (\<lambda>i. entry (elements d i)) (filter (\<lambda>i. contributes (elements d i)) els)))"
  by (simp add: collectParams_def collect_loop)

text \<open>A text field with \<^verbatim>\<open>name=""\<close> has a name attribute, is enabled and is no checkbox, and
  yet it contributes nothing.\<close>

theorem collected_parameters_counterexample:
  "attributes (form_controls 5) ''name'' \<noteq> None
   \<and> \<not> disabled (form_controls 5)
   \<and> el_type (form_controls 5) = Some ''text''
   \<and> collectParams (lookup [(''input'', [5])]) (page form_controls) (Some ''input'') = Inr []"
  by (simp add: collectParams_def appendParam_def page_def form_controls_def declared_def
      blank_def lookup_def)

theorem collected_parameters_witness:
  "collectParams (lookup [(''input'', [2, 3, 4, 5, 6])]) (page form_controls) (Some ''input'')
     = Inr [(''q'', ''tea''), (''size'', ''L'')]"
proof -
  have "lookup [(''input'', [2, 3, 4, 5, 6])] (page form_controls) ''input'' = Some [2, 3, 4, 5, 6]"
    by (simp add: lookup_def)
  with collected_parameters[of "lookup [(''input'', [2, 3, 4, 5, 6])]" "page form_controls"
      "''input''" "[2, 3, 4, 5, 6]"]
  show ?thesis
    by (simp add: page_def form_controls_def declared_def blank_def contributes_def entry_def)
qed

lemma encode_pair_nonempty: "(\<lambda>(n, v). encode n @ ''='' @ encode v) p \<noteq> []"
  by (cases p) simp

lemma join_empty: "join sep xs = [] \<Longrightarrow> xs = [] \<or> hd xs = []"
  by (induction sep xs rule: join.induct) auto

lemma toString_empty_iff: "toString params = [] \<longleftrightarrow> params = []"
proof
  assume "toString params = []"
  then have "map (\<lambda>(n, v). encode n @ ''='' @ encode v) params = []
             \<or> hd (map (\<lambda>(n, v). encode n @ ''='' @ encode v) params) = []"
    unfolding toString_def by (rule join_empty)
  then show "params = []"
    using encode_pair_nonempty by (cases params) auto
qed (simp add: toString_def)

lemma finalUrl_cases:
  "finalUrl url params =
     (if params = [] then url
      else url @ (if CHR ''?'' \<in> set url then ''&'' else ''?'') @ toString params)"
  by (simp add: finalUrl_def toString_empty_iff Let_def)

text \<open>What a firing that reaches \<^verbatim>\<open>fetch\<close> has read and done.\<close>

lemma start_Awaiting:
  assumes "requestFor_start qsa d el = (Awaiting p, d1)"
  shows "\<exists>url params.
           getAttribute d el ''hx-get'' = Some url \<and> url \<noteq> []
           \<and> collectParams qsa d (getAttribute d el ''hx-include'') = Inr params
           \<and> resolveTarget qsa d el = Inr (req_target p)
           \<and> resolveIndicator qsa d = Inr (req_indicator p)
           \<and> req_swap p = swap_attr d el
           \<and> req_url p = finalUrl url params
           \<and> d1 = (classList_add d (req_indicator p) ''htmx-request'')
                    \<lparr>trace := trace (classList_add d (req_indicator p) ''htmx-request'')
                              @ [Fetch (req_url p) [(''HX-Request'', ''true'')]]\<rparr>"
  using assms unfolding requestFor_start_def swap_attr_def Let_def
  by (simp split: option.splits sum.splits if_splits) auto

text \<open>\<^verbatim>\<open>document.body\<close> depends on the tree and on the tag names alone.\<close>

lemma first_body_tags:
  "(\<And>i. tagName (els' i) = tagName (els i)) \<Longrightarrow> first_body els' k cs = first_body els k cs"
  by (induction els k cs rule: first_body.induct) auto

lemma document_body_cong:
  assumes "root d' = root d" "\<And>i. tagName (elements d' i) = tagName (elements d i)"
  shows "document_body d' = document_body d"
  using assms first_body_tags[of "elements d'" "elements d"]
  by (auto simp: document_body_def split: tree.splits)

lemma classList_add_tag:
  "tagName (elements (classList_add d ind c) i) = tagName (elements d i)"
  by (auto simp: classList_add_def Let_def split: option.splits)

lemma classList_remove_tag:
  "tagName (elements (classList_remove d ind c) i) = tagName (elements d i)"
  by (auto simp: classList_remove_def Let_def split: option.splits)

lemma classList_add_frame:
  "root (classList_add d ind c) = root d"
  "document_body (classList_add d ind c) = document_body d"
  "loading (classList_add d ind c) = loading d"
  "trace (classList_add d ind c) = trace d @ (case ind of None \<Rightarrow> [] | Some i \<Rightarrow> [ClassAdd i c])"
proof -
  show r: "root (classList_add d ind c) = root d"
    by (auto simp: classList_add_def Let_def split: option.splits)
  show "document_body (classList_add d ind c) = document_body d"
    using r classList_add_tag by (rule document_body_cong)
  show "loading (classList_add d ind c) = loading d"
    by (auto simp: classList_add_def Let_def split: option.splits)
  show "trace (classList_add d ind c)
          = trace d @ (case ind of None \<Rightarrow> [] | Some i \<Rightarrow> [ClassAdd i c])"
    by (auto simp: classList_add_def Let_def split: option.splits)
qed

lemma start_trace:
  assumes "requestFor_start qsa d el = (Awaiting p, d1)"
  shows "trace d1 = trace d
                     @ (case req_indicator p of None \<Rightarrow> [] | Some i \<Rightarrow> [ClassAdd i ''htmx-request''])
                     @ [Fetch (req_url p) [(''HX-Request'', ''true'')]]"
    and "document_body d1 = document_body d" and "root d1 = root d"
proof -
  from start_Awaiting[OF assms] have d1:
    "d1 = (classList_add d (req_indicator p) ''htmx-request'')
            \<lparr>trace := trace (classList_add d (req_indicator p) ''htmx-request'')
                      @ [Fetch (req_url p) [(''HX-Request'', ''true'')]]\<rparr>" by blast
  show "trace d1 = trace d
                     @ (case req_indicator p of None \<Rightarrow> [] | Some i \<Rightarrow> [ClassAdd i ''htmx-request''])
                     @ [Fetch (req_url p) [(''HX-Request'', ''true'')]]"
    by (subst d1) (simp add: classList_add_frame)
  show r: "root d1 = root d" by (subst d1) (simp add: classList_add_frame)
  have "\<And>i. tagName (elements d1 i) = tagName (elements d i)"
    by (subst d1) (simp add: classList_add_tag)
  with r show "document_body d1 = document_body d" by (rule document_body_cong)
qed

lemma demo_start: "fst (requestFor_start demo_engine demo 2) = Awaiting demo_request"
  by code_simp

text \<open>
  Claim C7.  The path that is fetched is the declared path when the parameter set is
  empty.  Otherwise it is the declared path, left as it is, followed by \<^verbatim>\<open>&\<close> when the
  declared path contains a \<^verbatim>\<open>?\<close> and by \<^verbatim>\<open>?\<close> when it does not, followed by the serialised
  parameters, which are never empty for a parameter set that is not empty.  This is the
  path of every firing that reaches \<^verbatim>\<open>fetch\<close>.
\<close>

theorem final_request_path:
  "finalUrl url params =
     (if params = [] then url
      else url @ (if CHR ''?'' \<in> set url then ''&'' else ''?'') @ toString params)
   \<and> (params \<noteq> [] \<longrightarrow> toString params \<noteq> [])
   \<and> (requestFor_start qsa d el = (Awaiting p, d1) \<longrightarrow>
        (\<exists>u ps. getAttribute d el ''hx-get'' = Some u
                \<and> collectParams qsa d (getAttribute d el ''hx-include'') = Inr ps
                \<and> req_url p = finalUrl u ps
                \<and> last (trace d1) = Fetch (req_url p) [(''HX-Request'', ''true'')]))"
proof (intro conjI impI)
  show "finalUrl url params =
     (if params = [] then url
      else url @ (if CHR ''?'' \<in> set url then ''&'' else ''?'') @ toString params)"
    by (rule finalUrl_cases)
  show "params \<noteq> [] \<Longrightarrow> toString params \<noteq> []" by (simp add: toString_empty_iff)
  assume a: "requestFor_start qsa d el = (Awaiting p, d1)"
  from start_Awaiting[OF a] start_trace(1)[OF a]
  show "\<exists>u ps. getAttribute d el ''hx-get'' = Some u
                \<and> collectParams qsa d (getAttribute d el ''hx-include'') = Inr ps
                \<and> req_url p = finalUrl u ps
                \<and> last (trace d1) = Fetch (req_url p) [(''HX-Request'', ''true'')]"
    by auto
qed

theorem final_request_path_witness:
  "finalUrl ''/items'' [(''q'', ''tea'')] = ''/items?q=tea''
   \<and> finalUrl ''/items?page=2'' [(''q'', ''tea''), (''r'', ''a b'')] = ''/items?page=2&q=tea&r=a+b''
   \<and> finalUrl ''/items?page=2'' [] = ''/items?page=2''
   \<and> last (trace (snd (requestFor_start demo_engine demo 2)))
       = Fetch ''/items?q=tea'' [(''HX-Request'', ''true'')]"
proof -
  have ts: "toString [(''q'', ''tea'')] = ''q=tea''"
    "toString [(''q'', ''tea''), (''r'', ''a b'')] = ''q=tea&r=a+b''"
    by code_simp+
  have a: "finalUrl ''/items'' [(''q'', ''tea'')] = ''/items?q=tea''"
    using final_request_path[of "''/items''" "[(''q'', ''tea'')]"] ts by simp
  have b: "finalUrl ''/items?page=2'' [(''q'', ''tea''), (''r'', ''a b'')]
             = ''/items?page=2&q=tea&r=a+b''"
    using final_request_path[of "''/items?page=2''" "[(''q'', ''tea''), (''r'', ''a b'')]"] ts
    by simp
  have c: "finalUrl ''/items?page=2'' [] = ''/items?page=2''"
    using final_request_path[of "''/items?page=2''" "[]"] by simp
  have u: "req_url demo_request = ''/items?q=tea''" by (simp add: demo_request_def)
  have "requestFor_start demo_engine demo 2
          = (Awaiting demo_request, snd (requestFor_start demo_engine demo 2))"
    using demo_start by (metis prod.collapse)
  with final_request_path[of "[]" "[]" demo_engine demo 2 demo_request
      "snd (requestFor_start demo_engine demo 2)"]
  have "last (trace (snd (requestFor_start demo_engine demo 2)))
       = Fetch ''/items?q=tea'' [(''HX-Request'', ''true'')]" by (auto simp: u)
  with a b c show ?thesis by simp
qed

subsection \<open>The settled request\<close>

lemma applySwap_frame:
  assumes "applySwap d t s h = Inr d1"
  shows "elements d1 = elements d" "loading d1 = loading d" "parser_body d1 = parser_body d"
    "\<exists>sw. trace d1 = trace d @ sw \<and> (\<forall>a\<in>set sw. is_swap a)"
  using assms
  by (auto simp: applySwap_def set_outerHTML_def set_innerHTML_def split: option.splits if_splits)

lemma applySwap_error_any:
  "applySwap d t s h = Inl e \<Longrightarrow> applySwap d t s h' = Inl e"
  by (auto simp: applySwap_def set_outerHTML_def split: option.splits if_splits)

lemma classList_remove_frame:
  "root (classList_remove d ind c) = root d"
  "document_body (classList_remove d ind c) = document_body d"
  "trace (classList_remove d ind c)
     = trace d @ (case ind of None \<Rightarrow> [] | Some i \<Rightarrow> [ClassRemove i c])"
proof -
  show r: "root (classList_remove d ind c) = root d"
    by (auto simp: classList_remove_def Let_def split: option.splits)
  show "document_body (classList_remove d ind c) = document_body d"
    using r classList_remove_tag by (rule document_body_cong)
  show "trace (classList_remove d ind c)
     = trace d @ (case ind of None \<Rightarrow> [] | Some i \<Rightarrow> [ClassRemove i c])"
    by (auto simp: classList_remove_def Let_def split: option.splits)
qed

lemma finalizer_trace: "trace (finalizer d p) = trace d @ finalizer_actions d p"
  by (auto simp: finalizer_def finalizer_actions_def emitAfterRequest_def classList_remove_frame
      afterRequest_def Let_def split: option.splits)

lemma finalizer_inactive:
  "req_indicator p = Some i \<Longrightarrow> ''htmx-request'' \<notin> set (classList (elements (finalizer d p) i))"
  by (auto simp: finalizer_def emitAfterRequest_def classList_remove_def Let_def split: option.splits)

lemma finalizer_frame:
  "root (finalizer d p) = root d" "loading (finalizer d p) = loading d"
  "parser_body (finalizer d p) = parser_body d"
  by (auto simp: finalizer_def emitAfterRequest_def classList_remove_def Let_def split: option.splits)

lemma finalizer_tag: "tagName (elements (finalizer d p) i) = tagName (elements d i)"
  by (auto simp: finalizer_def emitAfterRequest_def classList_remove_def Let_def split: option.splits)

lemma finalizer_body: "document_body (finalizer d p) = document_body d"
  using finalizer_frame(1) finalizer_tag by (rule document_body_cong)

lemma finalizer_actions_body:
  "document_body d' = document_body d \<Longrightarrow> finalizer_actions d' p = finalizer_actions d p"
  by (simp add: finalizer_actions_def)

lemma finalizer_elements:
  "elements (finalizer d p) i =
     (if req_indicator p = Some i
      then (elements d i)\<lparr>classList := filter (\<lambda>x. x \<noteq> ''htmx-request'') (classList (elements d i))\<rparr>
      else elements d i)"
  by (auto simp: finalizer_def emitAfterRequest_def classList_remove_def Let_def split: option.splits)

lemma classList_add_elements:
  "elements (classList_add d ind c) i =
     (if ind = Some i
      then (elements d i)\<lparr>classList :=
             (if c \<in> set (classList (elements d i)) then classList (elements d i)
              else classList (elements d i) @ [c])\<rparr>
      else elements d i)"
  by (auto simp: classList_add_def Let_def split: option.splits)

text \<open>The two ways through \<^verbatim>\<open>try\<close>, \<^verbatim>\<open>catch\<close> and \<^verbatim>\<open>finally\<close>: the swap takes place, or
  the swap throws, and then the swap of the \<^verbatim>\<open>catch\<close> block throws as well.\<close>

lemma resume_swapped:
  "applySwap d (req_target p) (req_swap p) (rendered outcome) = Inr d1 \<Longrightarrow>
   requestFor_resume d p outcome = (None, finalizer d1 p)"
  by (cases outcome) (auto simp: requestFor_resume_def rendered_def)

lemma resume_raised:
  "applySwap d (req_target p) (req_swap p) (rendered outcome) = Inl e \<Longrightarrow>
   requestFor_resume d p outcome = (Some e, finalizer d p)"
proof -
  assume "applySwap d (req_target p) (req_swap p) (rendered outcome) = Inl e"
  then have any: "\<And>h. applySwap d (req_target p) (req_swap p) h = Inl e"
    using applySwap_error_any by blast
  show ?thesis
    unfolding requestFor_resume_def by (cases outcome) (simp_all add: any Let_def)
qed

lemma resume_cases:
  obtains d1 where "applySwap d (req_target p) (req_swap p) (rendered outcome) = Inr d1"
      "requestFor_resume d p outcome = (None, finalizer d1 p)"
  | e where "applySwap d (req_target p) (req_swap p) (rendered outcome) = Inl e"
      "requestFor_resume d p outcome = (Some e, finalizer d p)"
  using resume_swapped resume_raised
  by (cases "applySwap d (req_target p) (req_swap p) (rendered outcome)") blast+

lemma resume_trace:
  assumes "requestFor_resume d p outcome = (r, d')"
  obtains swaps where "\<forall>a\<in>set swaps. is_swap a"
    "trace d' = trace d @ swaps @ finalizer_actions d' p"
proof (cases rule: resume_cases[of d p outcome])
  case (1 d1)
  with assms have d': "d' = finalizer d1 p" by simp
  from applySwap_frame[OF 1(1)] obtain sw where
    "trace d1 = trace d @ sw" "\<forall>a\<in>set sw. is_swap a" by blast
  moreover have "finalizer_actions d' p = finalizer_actions d1 p"
    unfolding d' using finalizer_body by (rule finalizer_actions_body)
  ultimately have "trace d' = trace d @ sw @ finalizer_actions d' p"
    by (simp add: d' finalizer_trace)
  with \<open>\<forall>a\<in>set sw. is_swap a\<close> show thesis using that by blast
next
  case (2 e)
  with assms have d': "d' = finalizer d p" by simp
  have "finalizer_actions d' p = finalizer_actions d p"
    unfolding d' using finalizer_body by (rule finalizer_actions_body)
  then have "trace d' = trace d @ [] @ finalizer_actions d' p"
    by (simp add: d' finalizer_trace)
  then show thesis using that[of "[]"] by simp
qed

lemma no_request:
  "getAttribute d el ''hx-get'' = None \<or> getAttribute d el ''hx-get'' = Some [] \<Longrightarrow>
   requestFor qsa d el outcome = (None, d)"
  by (auto simp: requestFor_def requestFor_start_def)

text \<open>
  Claim C2, as the code has it.  Take a firing that has issued its request, and let \<open>d\<close>
  be the page when the request settles, with a response of either kind or with a
  network failure.  Then \<^verbatim>\<open>requestFor\<close> does its swap, if any, and after it exactly this:
  it removes the request class from the indicator that was resolved when the firing
  began, and then dispatches the notification on the body that the page has after the
  swap; each happens once, also when the swap throws, and only where the indicator,
  respectively the body, exists.  A firing whose \<^verbatim>\<open>hx-get\<close> is missing or empty at that
  moment ends at once: no request, no change of the indicator, no notification.
\<close>

theorem finalizer_once:
  "(requestFor_resume d p outcome = (r, d') \<longrightarrow>
      (\<exists>swaps. (\<forall>a\<in>set swaps. is_swap a) \<and> trace d' = trace d @ swaps @ finalizer_actions d' p)
      \<and> (\<forall>d1. applySwap d (req_target p) (req_swap p) (rendered outcome) = Inr d1
                \<longrightarrow> document_body d' = document_body d1)
      \<and> (\<forall>i. req_indicator p = Some i \<longrightarrow> ''htmx-request'' \<notin> set (classList (elements d' i))))
   \<and> (getAttribute d el ''hx-get'' = None \<or> getAttribute d el ''hx-get'' = Some []
        \<longrightarrow> requestFor qsa d el outcome = (None, d))"
proof (intro conjI impI allI)
  assume a: "requestFor_resume d p outcome = (r, d')"
  then obtain swaps where "\<forall>a\<in>set swaps. is_swap a"
    "trace d' = trace d @ swaps @ finalizer_actions d' p" by (rule resume_trace)
  then show "\<exists>swaps. (\<forall>a\<in>set swaps. is_swap a)
                \<and> trace d' = trace d @ swaps @ finalizer_actions d' p"
    by blast
next
  fix d1
  assume a: "requestFor_resume d p outcome = (r, d')"
    and s: "applySwap d (req_target p) (req_swap p) (rendered outcome) = Inr d1"
  from resume_swapped[OF s] a have "d' = finalizer d1 p" by simp
  then show "document_body d' = document_body d1" by (simp add: finalizer_body)
next
  fix i
  assume a: "requestFor_resume d p outcome = (r, d')" and i: "req_indicator p = Some i"
  show "''htmx-request'' \<notin> set (classList (elements d' i))"
  proof (cases rule: resume_cases[of d p outcome])
    case (1 d1)
    with a have "d' = finalizer d1 p" by simp
    then show ?thesis using finalizer_inactive[OF i] by blast
  next
    case (2 e)
    with a have "d' = finalizer d p" by simp
    then show ?thesis using finalizer_inactive[OF i] by blast
  qed
next
  assume "getAttribute d el ''hx-get'' = None \<or> getAttribute d el ''hx-get'' = Some []"
  then show "requestFor qsa d el outcome = (None, d)" by (rule no_request)
qed

text \<open>An element with \<^verbatim>\<open>hx-get=""\<close> is bound by \<^verbatim>\<open>boot\<close>, and its firing leaves the page
  as it was: the indicator is not touched and nothing is dispatched.  And on a page
  without a body, a firing fetches and swaps and then dispatches nothing.\<close>

theorem finalizer_once_counterexample:
  "boot demo_engine (setAttribute demo 2 ''hx-get'' []) = Inr [(2, [Listener ''click''])]
   \<and> requestFor demo_engine (setAttribute demo 2 ''hx-get'' []) 2 (answer True ''OK'' ''hi'')
       = (None, setAttribute demo 2 ''hx-get'' [])
   \<and> trace (setAttribute demo 2 ''hx-get'' []) = []
   \<and> trace (snd (requestFor demo_engine (demo\<lparr>root := Node 0 [Node 4 []]\<rparr>) 2
                    (answer True ''OK'' ''hi'')))
       = [Fetch ''/items?q=tea'' [(''HX-Request'', ''true'')], SetInnerHTML 4 ''hi'']"
proof -
  have nobody: "trace (snd (requestFor demo_engine (demo\<lparr>root := Node 0 [Node 4 []]\<rparr>) 2
                              (answer True ''OK'' ''hi'')))
       = [Fetch ''/items?q=tea'' [(''HX-Request'', ''true'')], SetInnerHTML 4 ''hi'']"
    by code_simp
  have "boot demo_engine (setAttribute demo 2 ''hx-get'' []) = Inr [(2, [Listener ''click''])]"
    by code_simp
  moreover have "getAttribute (setAttribute demo 2 ''hx-get'' []) 2 ''hx-get'' = Some []"
    by (simp add: getAttribute_def setAttribute_def)
  then have "requestFor demo_engine (setAttribute demo 2 ''hx-get'' []) 2 (answer True ''OK'' ''hi'')
       = (None, setAttribute demo 2 ''hx-get'' [])"
    by (simp add: requestFor_def requestFor_start_def)
  moreover have "trace (setAttribute demo 2 ''hx-get'' []) = []" by code_simp
  ultimately show ?thesis using nobody by simp
qed

lemma demo_finalizer_actions:
  "finalizer_actions
     (snd (requestFor_resume (snd (requestFor_start demo_engine demo 2)) demo_request
            (Rejected ''Failed to fetch''))) demo_request
     = [ClassRemove 5 ''htmx-request'', DispatchEvent (Elem 1) (afterRequest ''/items?q=tea'')]"
  by code_simp

lemma body_start: "fst (requestFor_start demo_engine body_demo 2) = Awaiting body_request"
  by code_simp

lemma body_finalizer_actions:
  "finalizer_actions
     (snd (requestFor_resume (snd (requestFor_start demo_engine body_demo 2)) body_request
            (answer True ''OK'' ''hi''))) body_request
     = [ClassRemove 5 ''htmx-request'', DispatchEvent (Made 0 ''hi'') (afterRequest ''/items?q=tea'')]"
  by code_simp

text \<open>On the example page the notification goes to the body element.  When the swap has
  put new markup in the place of the body, it goes to the body that the parser has made of
  that markup.\<close>

theorem finalizer_once_witness:
  "(\<exists>swaps. trace (snd (requestFor_resume (snd (requestFor_start demo_engine demo 2)) demo_request
                          (Rejected ''Failed to fetch'')))
            = trace (snd (requestFor_start demo_engine demo 2)) @ swaps
              @ [ClassRemove 5 ''htmx-request'',
                 DispatchEvent (Elem 1) (afterRequest ''/items?q=tea'')])
   \<and> ''htmx-request'' \<notin> set (classList (elements
        (snd (requestFor_resume (snd (requestFor_start demo_engine demo 2)) demo_request
               (Rejected ''Failed to fetch''))) 5))
   \<and> (\<exists>swaps. trace (snd (requestFor_resume (snd (requestFor_start demo_engine body_demo 2))
                            body_request (answer True ''OK'' ''hi'')))
            = trace (snd (requestFor_start demo_engine body_demo 2)) @ swaps
              @ [ClassRemove 5 ''htmx-request'',
                 DispatchEvent (Made 0 ''hi'') (afterRequest ''/items?q=tea'')])"
proof -
  let ?d = "snd (requestFor_start demo_engine demo 2)"
  let ?res = "requestFor_resume ?d demo_request (Rejected ''Failed to fetch'')"
  let ?b = "snd (requestFor_start demo_engine body_demo 2)"
  let ?bres = "requestFor_resume ?b body_request (answer True ''OK'' ''hi'')"
  have "?res = (fst ?res, snd ?res)" by simp
  with finalizer_once[of ?d demo_request "Rejected ''Failed to fetch''" "fst ?res" "snd ?res"
      2 demo_engine]
  have 1: "(\<exists>swaps. (\<forall>a\<in>set swaps. is_swap a)
           \<and> trace (snd ?res) = trace ?d @ swaps @ finalizer_actions (snd ?res) demo_request)"
    and 2: "\<forall>i. req_indicator demo_request = Some i
           \<longrightarrow> ''htmx-request'' \<notin> set (classList (elements (snd ?res) i))"
    by blast+
  have "?bres = (fst ?bres, snd ?bres)" by simp
  with finalizer_once[of ?b body_request "answer True ''OK'' ''hi''" "fst ?bres" "snd ?bres"
      2 demo_engine]
  have 3: "(\<exists>swaps. (\<forall>a\<in>set swaps. is_swap a)
           \<and> trace (snd ?bres) = trace ?b @ swaps @ finalizer_actions (snd ?bres) body_request)"
    by blast
  have i: "req_indicator demo_request = Some 5" by (simp add: demo_request_def)
  from 1 2 3 i show ?thesis unfolding demo_finalizer_actions body_finalizer_actions by blast
qed

text \<open>
  Claim C3, as the code has it.  Whatever the outcome, the swap goes to the target and
  uses the strategy that the firing resolved at its start; only the markup differs.  A
  successful response swaps in its body.  A network failure swaps in the warning block
  around the error's message.  A response without success swaps in the warning block
  around the response body if that is not empty, and around the status text otherwise:
  one of the two, never both.
\<close>

theorem error_rendering:
  "(applySwap d (req_target p) (req_swap p) (warning m) = Inr d1
      \<longrightarrow> requestFor_resume d p (Rejected m) = (None, finalizer d1 p))
   \<and> (\<not> ok r \<and> applySwap d (req_target p) (req_swap p)
                  (warning (if body_text r \<noteq> [] then body_text r else statusText r)) = Inr d2
        \<longrightarrow> requestFor_resume d p (Responded r) = (None, finalizer d2 p))
   \<and> (ok r \<and> applySwap d (req_target p) (req_swap p) (body_text r) = Inr d3
        \<longrightarrow> requestFor_resume d p (Responded r) = (None, finalizer d3 p))"
  using resume_swapped[of d p "Rejected m" d1] resume_swapped[of d p "Responded r" d2]
    resume_swapped[of d p "Responded r" d3]
  by (simp add: rendered_def)

text \<open>The answer \<^verbatim>\<open>404 Not Found\<close> with the body \<^verbatim>\<open>oops\<close> is rendered as the body alone; the
  status text is nowhere in the tree.\<close>

theorem error_rendering_counterexample:
  "root (snd (requestFor demo_engine demo 2 (answer False ''Not Found'' ''oops'')))
     = Node 0 [Node 1 [Node 2 [Node 3 []], Node 4 [Fragment ''<div class=\"warning\">oops</div>''],
                       Node 5 [], Node 6 []]]"
  by code_simp

theorem error_rendering_witness:
  "requestFor_resume demo demo_request (Rejected ''Failed to fetch'')
     = (None, finalizer (set_innerHTML demo 4 (warning ''Failed to fetch'')) demo_request)
   \<and> requestFor_resume demo demo_request (answer False ''Not Found'' [])
     = (None, finalizer (set_innerHTML demo 4 (warning ''Not Found'')) demo_request)
   \<and> requestFor_resume demo demo_request (answer True ''OK'' ''hi'')
     = (None, finalizer (set_innerHTML demo 4 ''hi'') demo_request)"
proof -
  have sw: "applySwap demo (req_target demo_request) (req_swap demo_request) h
              = Inr (set_innerHTML demo 4 h)" for h
    by (simp add: applySwap_def demo_request_def)
  let ?nf = "\<lparr>ok = False, statusText = ''Not Found'', body_text = []\<rparr>"
  let ?ok = "\<lparr>ok = True, statusText = ''OK'', body_text = ''hi''\<rparr>"
  note e = error_rendering[of demo demo_request]
  have a: "requestFor_resume demo demo_request (Rejected ''Failed to fetch'')
     = (None, finalizer (set_innerHTML demo 4 (warning ''Failed to fetch'')) demo_request)"
    using e[of "''Failed to fetch''" "set_innerHTML demo 4 (warning ''Failed to fetch'')" ?ok
        "set_innerHTML demo 4 ''hi''" "set_innerHTML demo 4 ''hi''"] sw by simp
  have b: "requestFor_resume demo demo_request (Responded ?nf)
     = (None, finalizer (set_innerHTML demo 4 (warning ''Not Found'')) demo_request)"
    using e[of "[]" "set_innerHTML demo 4 (warning [])" ?nf
        "set_innerHTML demo 4 (warning ''Not Found'')" "set_innerHTML demo 4 []"] sw by simp
  have c: "requestFor_resume demo demo_request (Responded ?ok)
     = (None, finalizer (set_innerHTML demo 4 ''hi'') demo_request)"
    using e[of "[]" "set_innerHTML demo 4 (warning [])" ?ok
        "set_innerHTML demo 4 ''hi''" "set_innerHTML demo 4 ''hi''"] sw by simp
  from a b c show ?thesis by (simp add: answer_def)
qed

subsection \<open>The notification\<close>








subsection \<open>A target that is not there\<close>

lemma resolveTarget_cases:
  "(getAttribute d el ''hx-target'' = None \<longrightarrow> resolveTarget qsa d el = Inr (Some el))
   \<and> (getAttribute d el ''hx-target'' = Some s \<and> s \<noteq> [] \<and> qsa d s = Some []
        \<longrightarrow> resolveTarget qsa d el = Inr None)"
  by (auto simp: resolveTarget_def querySelector_def)

lemma classList_add_rest:
  "parser_body (classList_add d ind c) = parser_body d"
  by (auto simp: classList_add_def Let_def split: option.splits)

lemma unmarked_element:
  "c \<notin> set (classList e) \<Longrightarrow>
   e\<lparr>classList := filter (\<lambda>x. x \<noteq> c) (classList e)\<rparr> = e"
proof -
  assume "c \<notin> set (classList e)"
  then have "filter (\<lambda>x. x \<noteq> c) (classList e) = classList e"
    by (induction "classList e") (auto simp: filter_id_conv)
  then show ?thesis by simp
qed

lemma firing_without_target:
  assumes st: "requestFor_start qsa d el = (Awaiting p, d1)" and nt: "req_target p = None"
    and f: "requestFor qsa d el outcome = (r, d')"
  shows "r = None" and "d' = finalizer d1 p" and "root d' = root d"
    and "document_body d' = document_body d"
    and "loading d' = loading d" and "parser_body d' = parser_body d"
    and "\<forall>i. req_indicator p \<noteq> Some i \<longrightarrow> elements d' i = elements d i"
    and "\<forall>i. req_indicator p = Some i \<longrightarrow>
               elements d' i = (elements d i)\<lparr>classList :=
                 filter (\<lambda>x. x \<noteq> ''htmx-request'') (classList (elements d i))\<rparr>"
    and "trace d' = trace d
           @ (case req_indicator p of None \<Rightarrow> [] | Some i \<Rightarrow> [ClassAdd i ''htmx-request''])
           @ [Fetch (req_url p) [(''HX-Request'', ''true'')]]
           @ finalizer_actions d p"
proof -
  from st f have res: "requestFor_resume d1 p outcome = (r, d')" by (simp add: requestFor_def)
  have "applySwap d1 (req_target p) (req_swap p) (rendered outcome) = Inr d1"
    using nt by (simp add: applySwap_def)
  from resume_swapped[OF this] res show r: "r = None" and d': "d' = finalizer d1 p" by simp_all
  from start_Awaiting[OF st] have d1: "d1 = (classList_add d (req_indicator p) ''htmx-request'')
                    \<lparr>trace := trace (classList_add d (req_indicator p) ''htmx-request'')
                              @ [Fetch (req_url p) [(''HX-Request'', ''true'')]]\<rparr>" by blast
  have e1: "elements d1 i = elements (classList_add d (req_indicator p) ''htmx-request'') i" for i
    by (subst d1) simp
  show "root d' = root d"
    using d' start_trace(3)[OF st] by (simp add: finalizer_frame)
  show b: "document_body d' = document_body d"
    using d' start_trace(2)[OF st] by (simp add: finalizer_body)
  show "loading d' = loading d"
    by (simp add: d' finalizer_frame) (subst d1, simp add: classList_add_frame)
  show "parser_body d' = parser_body d"
    by (simp add: d' finalizer_frame) (subst d1, simp add: classList_add_rest)
  show "\<forall>i. req_indicator p \<noteq> Some i \<longrightarrow> elements d' i = elements d i"
    by (simp add: d' finalizer_elements e1 classList_add_elements)
  show "\<forall>i. req_indicator p = Some i \<longrightarrow>
               elements d' i = (elements d i)\<lparr>classList :=
                 filter (\<lambda>x. x \<noteq> ''htmx-request'') (classList (elements d i))\<rparr>"
    by (auto simp: d' finalizer_elements e1 classList_add_elements)
  have "finalizer_actions d1 p = finalizer_actions d p"
    using start_trace(2)[OF st] by (rule finalizer_actions_body)
  then show "trace d' = trace d
           @ (case req_indicator p of None \<Rightarrow> [] | Some i \<Rightarrow> [ClassAdd i ''htmx-request''])
           @ [Fetch (req_url p) [(''HX-Request'', ''true'')]]
           @ finalizer_actions d p"
    by (simp add: d' finalizer_trace start_trace(1)[OF st])
qed

lemma firing_without_target_same:
  assumes st: "requestFor_start qsa d el = (Awaiting p, d1)" and nt: "req_target p = None"
    and f: "requestFor qsa d el outcome = (r, d')"
    and un: "\<forall>i. req_indicator p = Some i \<longrightarrow> ''htmx-request'' \<notin> set (classList (elements d i))"
  shows "d' = d\<lparr>trace := trace d'\<rparr>"
proof (rule document.equality)
  note w = firing_without_target[OF st nt f]
  show "root d' = root (d\<lparr>trace := trace d'\<rparr>)" using w(3) by simp
  show "loading d' = loading (d\<lparr>trace := trace d'\<rparr>)" using w(5) by simp
  show "parser_body d' = parser_body (d\<lparr>trace := trace d'\<rparr>)" using w(6) by simp
  show "trace d' = trace (d\<lparr>trace := trace d'\<rparr>)" by simp
  show "document.more d' = document.more (d\<lparr>trace := trace d'\<rparr>)" by simp
  have "elements d' i = elements d i" for i
  proof (cases "req_indicator p = Some i")
    case True
    with un have "''htmx-request'' \<notin> set (classList (elements d i))" by simp
    from unmarked_element[OF this] w(8) True show ?thesis by simp
  next
    case False
    with w(7) show ?thesis by simp
  qed
  then show "elements d' = elements (d\<lparr>trace := trace d'\<rparr>)" by (simp add: fun_eq_iff)
qed

text \<open>
  Claim C9.  Without an \<^verbatim>\<open>hx-target\<close> attribute the declaring element is the target.  When
  the target selector matches nothing the target is \<^verbatim>\<open>null\<close>, and the swap with that target
  returns the page as it is.  A firing with such a target, once its request is under way,
  raises nothing whatever the outcome, and does what every firing does apart from the
  swap: it marks the indicator, fetches, takes the mark off again, and notifies.  It leaves
  the tree, the body and every element other than the indicator as the firing found them;
  the indicator ends without the request class; and if the indicator did not carry that
  class before, the page after the firing is the page before it, but for the record of
  what has been done.
\<close>

theorem missing_target:
  "(getAttribute d el ''hx-target'' = None \<longrightarrow> resolveTarget qsa d el = Inr (Some el))
   \<and> (getAttribute d el ''hx-target'' = Some s \<and> s \<noteq> [] \<and> qsa d s = Some []
        \<longrightarrow> resolveTarget qsa d el = Inr None)
   \<and> applySwap d None sw html = Inr d
   \<and> (requestFor_start qsa d el = (Awaiting p, d1) \<and> req_target p = None
        \<and> requestFor qsa d el outcome = (r, d')
      \<longrightarrow> r = None \<and> root d' = root d \<and> document_body d' = document_body d
          \<and> (\<forall>i. req_indicator p \<noteq> Some i \<longrightarrow> elements d' i = elements d i)
          \<and> (\<forall>i. req_indicator p = Some i \<longrightarrow>
                elements d' i = (elements d i)\<lparr>classList :=
                  filter (\<lambda>x. x \<noteq> ''htmx-request'') (classList (elements d i))\<rparr>)
          \<and> trace d' = trace d
               @ (case req_indicator p of None \<Rightarrow> [] | Some i \<Rightarrow> [ClassAdd i ''htmx-request''])
               @ [Fetch (req_url p) [(''HX-Request'', ''true'')]]
               @ finalizer_actions d p
          \<and> ((\<forall>i. req_indicator p = Some i
                    \<longrightarrow> ''htmx-request'' \<notin> set (classList (elements d i)))
               \<longrightarrow> d' = d\<lparr>trace := trace d'\<rparr>))"
proof (intro conjI impI)
  show "applySwap d None sw html = Inr d" by (simp add: applySwap_def)
next
  assume "getAttribute d el ''hx-target'' = None"
  then show "resolveTarget qsa d el = Inr (Some el)" using resolveTarget_cases by blast
next
  assume "getAttribute d el ''hx-target'' = Some s \<and> s \<noteq> [] \<and> qsa d s = Some []"
  then show "resolveTarget qsa d el = Inr None" using resolveTarget_cases by blast
next
  assume a: "requestFor_start qsa d el = (Awaiting p, d1) \<and> req_target p = None
        \<and> requestFor qsa d el outcome = (r, d')"
  then have st: "requestFor_start qsa d el = (Awaiting p, d1)" and nt: "req_target p = None"
    and f: "requestFor qsa d el outcome = (r, d')" by simp_all
  note w = firing_without_target[OF st nt f]
  show "r = None" by (rule w(1))
  show "root d' = root d" by (rule w(3))
  show "document_body d' = document_body d" by (rule w(4))
  show "\<forall>i. req_indicator p \<noteq> Some i \<longrightarrow> elements d' i = elements d i" by (rule w(7))
  show "\<forall>i. req_indicator p = Some i \<longrightarrow>
                elements d' i = (elements d i)\<lparr>classList :=
                  filter (\<lambda>x. x \<noteq> ''htmx-request'') (classList (elements d i))\<rparr>" by (rule w(8))
  show "trace d' = trace d
               @ (case req_indicator p of None \<Rightarrow> [] | Some i \<Rightarrow> [ClassAdd i ''htmx-request''])
               @ [Fetch (req_url p) [(''HX-Request'', ''true'')]]
               @ finalizer_actions d p" by (rule w(9))
  assume "\<forall>i. req_indicator p = Some i \<longrightarrow> ''htmx-request'' \<notin> set (classList (elements d i))"
  with st nt f show "d' = d\<lparr>trace := trace d'\<rparr>" by (rule firing_without_target_same)
qed

lemma missing_start:
  "fst (requestFor_start demo_engine (setAttribute demo 2 ''hx-target'' ''#missing'') 2)
     = Awaiting (demo_request\<lparr>req_target := None\<rparr>)"
  by code_simp

lemma missing_facts:
  "trace (setAttribute demo 2 ''hx-target'' ''#missing'') = []"
  "classList (elements (setAttribute demo 2 ''hx-target'' ''#missing'') 5) = []"
  "finalizer_actions (setAttribute demo 2 ''hx-target'' ''#missing'')
     (demo_request\<lparr>req_target := None\<rparr>)
     = [ClassRemove 5 ''htmx-request'', DispatchEvent (Elem 1) (afterRequest ''/items?q=tea'')]"
  by code_simp+

text \<open>The example page with a target selector that matches nothing: after a firing,
  with a network failure as outcome, it is the page it was, and the request and the
  notification are on record.\<close>

theorem missing_target_witness:
  "resolveTarget demo_engine (setAttribute demo 2 ''hx-target'' ''#missing'') 2 = Inr None
   \<and> requestFor demo_engine (setAttribute demo 2 ''hx-target'' ''#missing'') 2
        (Rejected ''Failed to fetch'')
       = (None, (setAttribute demo 2 ''hx-target'' ''#missing'')
                  \<lparr>trace := [ClassAdd 5 ''htmx-request'',
                             Fetch ''/items?q=tea'' [(''HX-Request'', ''true'')],
                             ClassRemove 5 ''htmx-request'',
                             DispatchEvent (Elem 1) (afterRequest ''/items?q=tea'')]\<rparr>)"
proof -
  let ?d = "setAttribute demo 2 ''hx-target'' ''#missing''"
  let ?st = "requestFor_start demo_engine ?d 2"
  let ?f = "requestFor demo_engine ?d 2 (Rejected ''Failed to fetch'')"
  let ?p = "demo_request\<lparr>req_target := None\<rparr>"
  have a: "getAttribute ?d 2 ''hx-target'' = Some ''#missing''"
    by (simp add: getAttribute_def setAttribute_def)
  have b: "demo_engine ?d ''#missing'' = Some []" by (simp add: demo_engine_def lookup_def)
  have c: "?st = (Awaiting ?p, snd ?st)" using missing_start by (metis prod.collapse)
  have d: "?f = (fst ?f, snd ?f)" by simp
  have e: "req_target ?p = None" by simp
  have i: "req_indicator ?p = Some 5" by (simp add: demo_request_def)
  have u: "req_url ?p = ''/items?q=tea''" by (simp add: demo_request_def)
  note m = missing_target[of ?d 2 demo_engine "''#missing''" "[]" "[]" ?p "snd ?st"
      "Rejected ''Failed to fetch''" "fst ?f" "snd ?f"]
  from m a b have 1: "resolveTarget demo_engine ?d 2 = Inr None" by simp
  from m c d e have 2: "fst ?f = None" by blast
  from m c d e have "trace (snd ?f) = trace ?d
               @ (case req_indicator ?p of None \<Rightarrow> [] | Some i \<Rightarrow> [ClassAdd i ''htmx-request''])
               @ [Fetch (req_url ?p) [(''HX-Request'', ''true'')]]
               @ finalizer_actions ?d ?p" by blast
  then have 3: "trace (snd ?f) = [ClassAdd 5 ''htmx-request'',
                             Fetch ''/items?q=tea'' [(''HX-Request'', ''true'')],
                             ClassRemove 5 ''htmx-request'',
                             DispatchEvent (Elem 1) (afterRequest ''/items?q=tea'')]"
    unfolding missing_facts i u by simp
  have "\<forall>j. req_indicator ?p = Some j \<longrightarrow> ''htmx-request'' \<notin> set (classList (elements ?d j))"
    unfolding i by (simp add: missing_facts)
  with m c d e have 4: "snd ?f = ?d\<lparr>trace := trace (snd ?f)\<rparr>" by blast
  have "?f = (None, ?d\<lparr>trace := trace (snd ?f)\<rparr>)" using 2 4 by (metis prod.collapse)
  with 1 show ?thesis unfolding 3 by simp
qed

subsection \<open>When the attributes are read\<close>

lemma start_fst:
  "fst (requestFor_start qsa d el) =
     (case getAttribute d el ''hx-get'' of
        None \<Rightarrow> NoRequest
      | Some url \<Rightarrow>
          if url = [] then NoRequest
          else (case collectParams qsa d (getAttribute d el ''hx-include'') of
                  Inl e \<Rightarrow> Threw e
                | Inr params \<Rightarrow>
                    (case resolveTarget qsa d el of
                       Inl e \<Rightarrow> Threw e
                     | Inr target \<Rightarrow>
                         (case resolveIndicator qsa d of
                            Inl e \<Rightarrow> Threw e
                          | Inr indicator \<Rightarrow>
                              Awaiting \<lparr>req_url = finalUrl url params, req_target = target,
                                        req_swap = swap_attr d el, req_indicator = indicator\<rparr>))))"
  by (simp add: requestFor_start_def swap_attr_def Let_def split: option.splits sum.splits)

lemma getAttribute_setAttribute:
  "getAttribute (setAttribute d el k v) x k' =
     (if x = el \<and> k' = k then Some v else getAttribute d x k')"
  by (simp add: getAttribute_def setAttribute_def)

lemma appendParam_setAttribute:
  "k \<noteq> ''name'' \<Longrightarrow> appendParam (setAttribute d el k v) = appendParam d"
  by (intro ext) (auto simp: appendParam_def setAttribute_def Let_def split: option.splits)

lemma trigger_irrelevant:
  assumes "\<forall>s. qsa (setAttribute d el ''hx-trigger'' v) s = qsa d s"
  shows "fst (requestFor_start qsa (setAttribute d el ''hx-trigger'' v) el)
           = fst (requestFor_start qsa d el)"
proof -
  let ?d = "setAttribute d el ''hx-trigger'' v"
  have g: "getAttribute ?d x k = getAttribute d x k" if "k \<noteq> ''hx-trigger''" for x k
    using that by (simp add: getAttribute_setAttribute)
  have q: "querySelector qsa ?d s = querySelector qsa d s" for s
    using assms by (simp add: querySelector_def)
  have c: "collectParams qsa ?d sel = collectParams qsa d sel" for sel
    using assms by (simp add: collectParams_def appendParam_setAttribute split: option.splits)
  have t: "resolveTarget qsa ?d el = resolveTarget qsa d el"
    by (simp add: resolveTarget_def g q split: option.splits)
  have "root ?d = root d" "\<And>i. tagName (elements ?d i) = tagName (elements d i)"
    by (simp_all add: setAttribute_def)
  then have b: "document_body ?d = document_body d" by (rule document_body_cong)
  have a: "body_attribute ?d x ''hx-indicator'' = body_attribute d x ''hx-indicator''" for x
    by (cases x) (simp_all add: body_attribute_def g, simp add: setAttribute_def)
  have i: "resolveIndicator qsa ?d = resolveIndicator qsa d"
    by (simp add: resolveIndicator_def a q b split: option.splits)
  have s: "swap_attr ?d el = swap_attr d el" by (simp add: swap_attr_def g)
  show ?thesis by (simp add: start_fst g c t i s split: option.splits sum.splits)
qed

text \<open>No step of a session adds a registration, and the only ones that go are the
  requests deferred until the document has been parsed, when that moment has come.\<close>

lemma registry_fire: "registry (fire qsa s el) = registry s"
  by (simp add: fire_def split: prod.splits started.splits)

lemma registry_fires: "registry (foldl (fire qsa) s els) = registry s"
  by (induction els arbitrary: s) (simp_all add: registry_fire)

lemma registry_step:
  "registry (step qsa s x) =
     (if x = ContentLoaded then filter (\<lambda>(e, b). b \<noteq> DeferredRequest) (registry s)
      else registry s)"
  by (cases x) (auto simp: registry_fires registry_fire split: prod.splits binding.splits)

lemma registry_steps:
  "registry (foldl (step qsa) s stims) =
     (if ContentLoaded \<in> set stims then filter (\<lambda>(e, b). b \<noteq> DeferredRequest) (registry s)
      else registry s)"
  by (induction stims arbitrary: s) (simp_all add: registry_step del: step.simps)

lemma booted_registry:
  assumes "qsa d ''[hx-get]'' = Some els"
  shows "\<exists>s0. booted qsa d = Inr s0
           \<and> registry s0 = filter (\<lambda>(e, b). b \<noteq> ImmediateRequest)
               (concat (map (\<lambda>e. map (Pair e)
                  (concat (map (setupTrigger (loading d))
                     (parseTriggers (getAttribute d e ''hx-trigger''))))) els))"
  using assms
  by (simp add: booted_def boot_def Let_def registry_fires setupElement_def comp_def)

lemma idle_dispatch:
  assumes "(el, Listener name) \<notin> set (registry s)"
  shows "step qsa (foldl (step qsa) s stims) (Dispatched el name) = foldl (step qsa) s stims"
proof -
  let ?s = "foldl (step qsa) s stims"
  have "set (registry ?s) \<subseteq> set (registry s)" by (auto simp: registry_steps)
  with assms have "(el, Listener name) \<notin> set (registry ?s)" by blast
  then have "filter (\<lambda>(e, b). e = el \<and> b = Listener name) (registry ?s) = []"
    by (auto simp: filter_empty_conv)
  then show ?thesis by simp
qed

text \<open>
  Claim C10.  A firing that reaches \<^verbatim>\<open>fetch\<close> has taken the path, the include selector,
  the target selector and the swap strategy from the attributes the element has at that
  moment: after \<^verbatim>\<open>setAttribute\<close> on one of the four, the next firing works with the new
  value.  The \<^verbatim>\<open>hx-trigger\<close> attribute is not among them: changing it changes nothing
  about a firing (as long as no selector in use depends on it); it is read by
  \<^verbatim>\<open>setupElement\<close> alone, and what \<^verbatim>\<open>setupElement\<close> registers is fixed by the value the
  attribute has then.  \<^verbatim>\<open>boot\<close> runs \<^verbatim>\<open>setupElement\<close> once for each element with an \<^verbatim>\<open>hx-get\<close>
  attribute, and the listeners and timers it has registered are those of the session
  from then on, whatever is dispatched, whatever attribute is set and whatever request
  settles; only the requests deferred until the document has been parsed leave when that
  has happened.  So an event whose type has no listener on an element at bind time never
  fires that element.
\<close>

theorem attributes_read_at_firing:
  "(requestFor_start qsa d el = (Awaiting p, d1) \<longrightarrow>
      (\<exists>u ps. getAttribute d el ''hx-get'' = Some u
              \<and> collectParams qsa d (getAttribute d el ''hx-include'') = Inr ps
              \<and> req_url p = finalUrl u ps)
      \<and> resolveTarget qsa d el = Inr (req_target p)
      \<and> req_swap p = swap_attr d el)
   \<and> (requestFor_start qsa (setAttribute d el ''hx-get'' v) el = (Awaiting p, d1) \<longrightarrow>
        (\<exists>ps. req_url p = finalUrl v ps))
   \<and> (requestFor_start qsa (setAttribute d el ''hx-include'' v) el = (Awaiting p, d1) \<longrightarrow>
        (\<exists>u ps. collectParams qsa (setAttribute d el ''hx-include'' v) (Some v) = Inr ps
                \<and> req_url p = finalUrl u ps))
   \<and> (requestFor_start qsa (setAttribute d el ''hx-target'' v) el = (Awaiting p, d1) \<and> v \<noteq> [] \<longrightarrow>
        querySelector qsa (setAttribute d el ''hx-target'' v) v = Inr (req_target p))
   \<and> (requestFor_start qsa (setAttribute d el ''hx-swap'' v) el = (Awaiting p, d1) \<and> v \<noteq> [] \<longrightarrow>
        req_swap p = v)
   \<and> ((\<forall>s. qsa (setAttribute d el ''hx-trigger'' v) s = qsa d s) \<longrightarrow>
        fst (requestFor_start qsa (setAttribute d el ''hx-trigger'' v) el)
          = fst (requestFor_start qsa d el))
   \<and> setupElement (setAttribute d el ''hx-trigger'' v) el
       = concat (map (setupTrigger (loading d)) (parseTriggers (Some v)))
   \<and> (qsa d ''[hx-get]'' = Some els \<longrightarrow>
        (\<exists>s0. booted qsa d = Inr s0
           \<and> registry s0 = filter (\<lambda>(e, b). b \<noteq> ImmediateRequest)
               (concat (map (\<lambda>e. map (Pair e)
                  (concat (map (setupTrigger (loading d))
                     (parseTriggers (getAttribute d e ''hx-trigger''))))) els))))
   \<and> registry (foldl (step qsa) s stims)
       = (if ContentLoaded \<in> set stims
          then filter (\<lambda>(e, b). b \<noteq> DeferredRequest) (registry s) else registry s)
   \<and> ((el, Listener name) \<notin> set (registry s) \<longrightarrow>
        step qsa (foldl (step qsa) s stims) (Dispatched el name) = foldl (step qsa) s stims)"
proof (intro conjI impI)
  assume "requestFor_start qsa d el = (Awaiting p, d1)"
  from start_Awaiting[OF this]
  show "\<exists>u ps. getAttribute d el ''hx-get'' = Some u
              \<and> collectParams qsa d (getAttribute d el ''hx-include'') = Inr ps
              \<and> req_url p = finalUrl u ps"
    and "resolveTarget qsa d el = Inr (req_target p)" and "req_swap p = swap_attr d el"
    by auto
next
  assume "requestFor_start qsa (setAttribute d el ''hx-get'' v) el = (Awaiting p, d1)"
  from start_Awaiting[OF this] show "\<exists>ps. req_url p = finalUrl v ps"
    by (auto simp: getAttribute_setAttribute)
next
  assume "requestFor_start qsa (setAttribute d el ''hx-include'' v) el = (Awaiting p, d1)"
  from start_Awaiting[OF this]
  show "\<exists>u ps. collectParams qsa (setAttribute d el ''hx-include'' v) (Some v) = Inr ps
                \<and> req_url p = finalUrl u ps"
    by (auto simp: getAttribute_setAttribute)
next
  assume "requestFor_start qsa (setAttribute d el ''hx-target'' v) el = (Awaiting p, d1) \<and> v \<noteq> []"
  then have a: "requestFor_start qsa (setAttribute d el ''hx-target'' v) el = (Awaiting p, d1)"
    and v: "v \<noteq> []" by simp_all
  from start_Awaiting[OF a] v
  show "querySelector qsa (setAttribute d el ''hx-target'' v) v = Inr (req_target p)"
    by (auto simp: getAttribute_setAttribute resolveTarget_def)
next
  assume "requestFor_start qsa (setAttribute d el ''hx-swap'' v) el = (Awaiting p, d1) \<and> v \<noteq> []"
  then have a: "requestFor_start qsa (setAttribute d el ''hx-swap'' v) el = (Awaiting p, d1)"
    and v: "v \<noteq> []" by simp_all
  from start_Awaiting[OF a] v show "req_swap p = v"
    by (auto simp: getAttribute_setAttribute swap_attr_def)
next
  assume "\<forall>s. qsa (setAttribute d el ''hx-trigger'' v) s = qsa d s"
  then show "fst (requestFor_start qsa (setAttribute d el ''hx-trigger'' v) el)
          = fst (requestFor_start qsa d el)" by (rule trigger_irrelevant)
next
  show "setupElement (setAttribute d el ''hx-trigger'' v) el
       = concat (map (setupTrigger (loading d)) (parseTriggers (Some v)))"
    by (simp add: setupElement_def getAttribute_setAttribute) (simp add: setAttribute_def)
next
  assume "qsa d ''[hx-get]'' = Some els"
  then show "\<exists>s0. booted qsa d = Inr s0
           \<and> registry s0 = filter (\<lambda>(e, b). b \<noteq> ImmediateRequest)
               (concat (map (\<lambda>e. map (Pair e)
                  (concat (map (setupTrigger (loading d))
                     (parseTriggers (getAttribute d e ''hx-trigger''))))) els))"
    by (rule booted_registry)
next
  show "registry (foldl (step qsa) s stims)
       = (if ContentLoaded \<in> set stims
          then filter (\<lambda>(e, b). b \<noteq> DeferredRequest) (registry s) else registry s)"
    by (rule registry_steps)
next
  assume "(el, Listener name) \<notin> set (registry s)"
  then show "step qsa (foldl (step qsa) s stims) (Dispatched el name) = foldl (step qsa) s stims"
    by (rule idle_dispatch)
qed

lemma swap_start:
  "fst (requestFor_start demo_engine (setAttribute demo 2 ''hx-swap'' ''outerHTML'') 2)
     = Awaiting (demo_request\<lparr>req_swap := ''outerHTML''\<rparr>)"
  by code_simp

lemma demo_session:
  "inflight (foldl (step demo_engine)
       \<lparr>doc = demo, registry = [(2, Listener ''click'')], inflight = []\<rparr>
       [AttributeSet 2 ''hx-trigger'' ''mouseover'', AttributeSet 2 ''hx-swap'' ''outerHTML'',
        Dispatched 2 ''mouseover'', Dispatched 2 ''click''])
     = [demo_request\<lparr>req_swap := ''outerHTML''\<rparr>]"
  by code_simp

text \<open>The example page after \<^verbatim>\<open>boot\<close>: one listener, for \<^verbatim>\<open>click\<close>.  When the trigger
  attribute is then set to \<^verbatim>\<open>mouseover\<close> and the swap attribute to \<^verbatim>\<open>outerHTML\<close>, the
  listener is still the one for \<^verbatim>\<open>click\<close>, a \<^verbatim>\<open>mouseover\<close> fires nothing, and the click
  fires a request that will be swapped in with \<^verbatim>\<open>outerHTML\<close>.\<close>

theorem attributes_read_at_firing_witness:
  "req_swap demo_request = ''innerHTML''
   \<and> fst (requestFor_start demo_engine demo 2) = Awaiting demo_request
   \<and> fst (requestFor_start demo_engine (setAttribute demo 2 ''hx-swap'' ''outerHTML'') 2)
       = Awaiting (demo_request\<lparr>req_swap := ''outerHTML''\<rparr>)
   \<and> fst (requestFor_start demo_engine (setAttribute demo 2 ''hx-trigger'' ''every 2s'') 2)
       = Awaiting demo_request
   \<and> setupElement demo 2 = [Listener ''click'']
   \<and> setupElement (setAttribute demo 2 ''hx-trigger'' ''load'') 2 = [ImmediateRequest]
   \<and> (\<exists>s0. booted demo_engine demo = Inr s0 \<and> registry s0 = [(2, Listener ''click'')])
   \<and> registry (foldl (step demo_engine)
         \<lparr>doc = demo, registry = [(2, Listener ''click'')], inflight = []\<rparr>
         [AttributeSet 2 ''hx-trigger'' ''mouseover'', AttributeSet 2 ''hx-swap'' ''outerHTML'',
          Dispatched 2 ''mouseover'', Dispatched 2 ''click''])
       = [(2, Listener ''click'')]
   \<and> inflight (foldl (step demo_engine)
         \<lparr>doc = demo, registry = [(2, Listener ''click'')], inflight = []\<rparr>
         [AttributeSet 2 ''hx-trigger'' ''mouseover'', AttributeSet 2 ''hx-swap'' ''outerHTML'',
          Dispatched 2 ''mouseover'', Dispatched 2 ''click''])
       = [demo_request\<lparr>req_swap := ''outerHTML''\<rparr>]
   \<and> step demo_engine
        (foldl (step demo_engine)
           \<lparr>doc = demo, registry = [(2, Listener ''click'')], inflight = []\<rparr>
           [AttributeSet 2 ''hx-trigger'' ''mouseover''])
        (Dispatched 2 ''mouseover'')
       = foldl (step demo_engine)
           \<lparr>doc = demo, registry = [(2, Listener ''click'')], inflight = []\<rparr>
           [AttributeSet 2 ''hx-trigger'' ''mouseover'']"
proof -
  let ?d = "setAttribute demo 2 ''hx-swap'' ''outerHTML''"
  let ?p = "demo_request\<lparr>req_swap := ''outerHTML''\<rparr>"
  let ?s = "\<lparr>doc = demo, registry = [(2, Listener ''click'')], inflight = []\<rparr>"
  let ?xs = "[AttributeSet 2 ''hx-trigger'' ''mouseover'', AttributeSet 2 ''hx-swap'' ''outerHTML'',
          Dispatched 2 ''mouseover'', Dispatched 2 ''click'']"
  note a = attributes_read_at_firing[of demo_engine demo 2 ?p "snd (requestFor_start demo_engine ?d 2)"
      "''outerHTML''" "[2]" ?s ?xs "''mouseover''"]
  note b = attributes_read_at_firing[of demo_engine demo 2 ?p "snd (requestFor_start demo_engine ?d 2)"
      "''every 2s''" "[2]" ?s ?xs "''mouseover''"]
  note c = attributes_read_at_firing[of demo_engine demo 2 ?p "snd (requestFor_start demo_engine ?d 2)"
      "''load''" "[2]" ?s "[AttributeSet 2 ''hx-trigger'' ''mouseover'']" "''mouseover''"]
  have s0: "fst (requestFor_start demo_engine demo 2) = Awaiting demo_request"
    by (rule demo_start)
  have "requestFor_start demo_engine ?d 2 = (Awaiting ?p, snd (requestFor_start demo_engine ?d 2))"
    using swap_start by (metis prod.collapse)
  with a have s1: "req_swap ?p = ''outerHTML''" by blast
  have "\<forall>s. demo_engine (setAttribute demo 2 ''hx-trigger'' ''every 2s'') s = demo_engine demo s"
    by (simp add: demo_engine_def lookup_def)
  with b s0 have s2: "fst (requestFor_start demo_engine (setAttribute demo 2 ''hx-trigger'' ''every 2s'') 2)
       = Awaiting demo_request" by simp
  have ld: "loading demo = False" by (simp add: demo_def page_def)
  have pt: "parseTriggers (Some ''load'') = [''load'']"
    by (simp add: parseTriggers_def trim_def is_ws_def)
  from c have "setupElement (setAttribute demo 2 ''hx-trigger'' ''load'') 2
       = concat (map (setupTrigger (loading demo)) (parseTriggers (Some ''load'')))" by blast
  then have s3: "setupElement (setAttribute demo 2 ''hx-trigger'' ''load'') 2 = [ImmediateRequest]"
    by (simp add: ld pt setupTrigger_def)
  have s4: "setupElement demo 2 = [Listener ''click'']" by code_simp
  have s5: "req_swap demo_request = ''innerHTML''" by (simp add: demo_request_def)
  from a have "registry (foldl (step demo_engine) ?s ?xs)
       = (if ContentLoaded \<in> set ?xs
          then filter (\<lambda>(e, b). b \<noteq> DeferredRequest) (registry ?s) else registry ?s)" by blast
  then have s6: "registry (foldl (step demo_engine) ?s ?xs) = [(2, Listener ''click'')]"
    by simp
  have "(2, Listener ''mouseover'') \<notin> set (registry ?s)" by simp
  with c have s7: "step demo_engine
        (foldl (step demo_engine) ?s [AttributeSet 2 ''hx-trigger'' ''mouseover''])
        (Dispatched 2 ''mouseover'')
       = foldl (step demo_engine) ?s [AttributeSet 2 ''hx-trigger'' ''mouseover'']" by blast
  have q: "demo_engine demo ''[hx-get]'' = Some [2]" by (simp add: demo_engine_def lookup_def)
  have tr: "getAttribute demo 2 ''hx-trigger'' = None" by code_simp
  have pn: "parseTriggers None = [''click'']"
    by (simp add: parseTriggers_def DEFAULT_TRIGGER_def)
  have sc: "setupTrigger False ''click'' = [Listener ''click'']" by code_simp
  from a q have "\<exists>s0. booted demo_engine demo = Inr s0
           \<and> registry s0 = filter (\<lambda>(e, b). b \<noteq> ImmediateRequest)
               (concat (map (\<lambda>e. map (Pair e)
                  (concat (map (setupTrigger (loading demo))
                     (parseTriggers (getAttribute demo e ''hx-trigger''))))) [2]))" by blast
  then have s8: "\<exists>s0. booted demo_engine demo = Inr s0 \<and> registry s0 = [(2, Listener ''click'')]"
    by (simp add: tr pn ld sc)
  from s0 s1 s2 s3 s4 s5 s6 s7 s8 swap_start demo_session show ?thesis
    by (intro conjI)
qed

subsection \<open>Swapping\<close>

lemma replace_absent:
  "t \<notin> set (ids tr) \<Longrightarrow> outer_replace t h tr = tr \<and> inner_replace t h tr = tr"
  by (induction tr) (auto simp: map_idI)

lemma subtree_id: "subtree tr p = Some (Node t ks) \<Longrightarrow> t \<in> set (ids tr)"
proof (induction tr p rule: subtree.induct)
  case (2 i ks' n ns)
  then have "n < length ks'" "t \<in> set (ids (ks' ! n))" by (auto split: if_splits)
  then show ?case by (auto intro!: bexI[of _ "ks' ! n"])
qed auto

lemma distinct_concat_nth:
  "distinct (concat xss) \<Longrightarrow> m < length xss \<Longrightarrow> n < length xss \<Longrightarrow> m \<noteq> n \<Longrightarrow>
   set (xss ! m) \<inter> set (xss ! n) = {}"
proof (induction xss arbitrary: m n)
  case Nil
  then show ?case by simp
next
  case (Cons a xss)
  show ?case
  proof (cases m)
    case 0
    with Cons.prems obtain n' where "n = Suc n'" "n' < length xss" by (cases n) auto
    with Cons.prems 0 show ?thesis by (auto dest: nth_mem)
  next
    case (Suc m')
    show ?thesis
    proof (cases n)
      case 0
      with Cons.prems Suc show ?thesis by (auto dest: nth_mem)
    next
      case (Suc n')
      with Cons.prems \<open>m = Suc m'\<close> Cons.IH[of m' n'] show ?thesis by simp
    qed
  qed
qed

lemma distinct_concat_part:
  "distinct (concat xss) \<Longrightarrow> n < length xss \<Longrightarrow> distinct (xss ! n)"
  by (induction xss arbitrary: n) (auto simp: nth_Cons')

lemma map_only_nth:
  assumes "n < length ks" "\<And>m. m < length ks \<Longrightarrow> m \<noteq> n \<Longrightarrow> f (ks ! m) = ks ! m"
  shows "map f ks = ks[n := f (ks ! n)]"
  using assms by (intro nth_equalityI) (auto simp: nth_list_update)

lemma replace_on_path:
  assumes "distinct (ids tr)" "subtree tr p = Some (Node t ks)"
  shows "inner_replace t h tr = replace_at (Node t [Fragment h]) p tr
         \<and> outer_replace t h tr = replace_at (Fragment h) p tr"
  using assms
proof (induction p arbitrary: tr)
  case Nil
  then show ?case by simp
next
  case (Cons n ns)
  then obtain i cs where tr: "tr = Node i cs" by (cases tr) auto
  with Cons.prems have n: "n < length cs" and sub: "subtree (cs ! n) ns = Some (Node t ks)"
    by (auto split: if_splits)
  from Cons.prems(1) tr have dc: "distinct (concat (map ids cs))" and i: "i \<notin> set (concat (map ids cs))"
    by auto
  have tn: "t \<in> set (ids (cs ! n))" using sub by (rule subtree_id)
  then have "t \<in> set (concat (map ids cs))" using n by (auto intro!: bexI[of _ "cs ! n"])
  with i have it: "i \<noteq> t" by auto
  have dn: "distinct (ids (cs ! n))" using distinct_concat_part[OF dc, of n] n by simp
  have other: "t \<notin> set (ids (cs ! m))" if "m < length cs" "m \<noteq> n" for m
    using distinct_concat_nth[OF dc, of m n] that n tn by auto
  have ih: "inner_replace t h (cs ! n) = replace_at (Node t [Fragment h]) ns (cs ! n)
            \<and> outer_replace t h (cs ! n) = replace_at (Fragment h) ns (cs ! n)"
    using Cons.IH[OF dn sub] .
  have "map (inner_replace t h) cs = cs[n := inner_replace t h (cs ! n)]"
    using n other by (intro map_only_nth) (auto simp: replace_absent)
  moreover have "map (outer_replace t h) cs = cs[n := outer_replace t h (cs ! n)]"
    using n other by (intro map_only_nth) (auto simp: replace_absent)
  ultimately show ?case using tr it n ih by simp
qed

lemma replace_at_read:
  "subtree tr p = Some old \<Longrightarrow> subtree (replace_at new p tr) p = Some new"
  by (induction new p tr rule: replace_at.induct) (auto split: if_splits)

lemma child_not_root:
  assumes "distinct (ids tr)" "subtree tr p = Some (Node t ks)" "p \<noteq> []"
  shows "\<not> (case tr of Node r cs \<Rightarrow> r = t | Fragment s \<Rightarrow> False)"
proof -
  from assms(3) obtain n ns where p: "p = n # ns" by (cases p) auto
  with assms(2) obtain i cs where tr: "tr = Node i cs" by (cases tr) auto
  with assms(2) p have n: "n < length cs" and sub: "subtree (cs ! n) ns = Some (Node t ks)"
    by (auto split: if_splits)
  have "t \<in> set (ids (cs ! n))" using sub by (rule subtree_id)
  then have "t \<in> set (concat (map ids cs))" using n by (auto intro!: bexI[of _ "cs ! n"])
  with assms(1) tr show ?thesis by auto
qed

lemma replace_at_frame:
  "take (length p) q \<noteq> p \<Longrightarrow> take (length q) p \<noteq> q \<Longrightarrow>
   subtree (replace_at new p tr) q = subtree tr q"
proof (induction new p tr arbitrary: q rule: replace_at.induct)
  case (1 new t)
  then show ?case by simp
next
  case (2 new n ns i ks)
  then obtain m ms where q: "q = m # ms" by (cases q) auto
  show ?case
  proof (cases "m = n")
    case True
    with 2 q show ?thesis by (auto simp: nth_list_update)
  next
    case False
    with q show ?thesis by (auto simp: nth_list_update)
  qed
next
  case (3 new n ns s)
  then show ?case by simp
qed


text \<open>
  Claim C8, as the code has it.  The strategy that the specification calls replace-node is
  the attribute value \<^verbatim>\<open>outerHTML\<close>; every other value, \<^verbatim>\<open>innerHTML\<close> and unknown names
  alike, is the strategy it calls replace-contents.  Let the target be in the tree, at the
  path \<open>pth\<close>.  With \<^verbatim>\<open>outerHTML\<close>, and the target not the root element, the parsed markup
  stands at that path afterwards, in place of the target.  With any other strategy the
  target stays at that path and the parsed markup is all it contains.  Nothing else in
  the tree changes.
\<close>

theorem swap_strategies:
  assumes "distinct (ids (root d))" "subtree (root d) pth = Some (Node t ks)"
  shows "(pth \<noteq> [] \<longrightarrow>
            applySwap d (Some t) ''outerHTML'' h =
              Inr (d\<lparr>root := replace_at (Fragment h) pth (root d),
                     trace := trace d @ [SetOuterHTML t h]\<rparr>))
         \<and> (sw \<noteq> ''outerHTML'' \<longrightarrow>
              applySwap d (Some t) sw h =
                Inr (d\<lparr>root := replace_at (Node t [Fragment h]) pth (root d),
                       trace := trace d @ [SetInnerHTML t h]\<rparr>))
         \<and> (\<forall>new. subtree (replace_at new pth (root d)) pth = Some new)
         \<and> (\<forall>new q. take (length pth) q \<noteq> pth \<and> take (length q) pth \<noteq> q \<longrightarrow>
                subtree (replace_at new pth (root d)) q = subtree (root d) q)"
  using replace_on_path[OF assms, of h] child_not_root[OF assms] replace_at_read[OF assms(2)]
    replace_at_frame[of pth _ _ "root d"]
  by (auto simp: applySwap_def set_outerHTML_def set_innerHTML_def is_root_def)

lemma demo_tree:
  "root demo = Node 0 [Node 1 [Node 2 [Node 3 []], Node 4 [], Node 5 [], Node 6 []]]"
  by (simp add: demo_def page_def)

theorem swap_strategies_witness:
  "applySwap demo (Some 4) ''outerHTML'' ''<b>hi</b>''
     = Inr (demo\<lparr>root := Node 0 [Node 1 [Node 2 [Node 3 []], Fragment ''<b>hi</b>'', Node 5 [], Node 6 []]],
                 trace := trace demo @ [SetOuterHTML 4 ''<b>hi</b>'']\<rparr>)
   \<and> applySwap demo (Some 4) ''innerHTML'' ''<b>hi</b>''
     = Inr (demo\<lparr>root := Node 0 [Node 1 [Node 2 [Node 3 []], Node 4 [Fragment ''<b>hi</b>''], Node 5 [], Node 6 []]],
                 trace := trace demo @ [SetInnerHTML 4 ''<b>hi</b>'']\<rparr>)
   \<and> applySwap demo (Some 4) ''beforeend'' ''<b>hi</b>''
     = Inr (demo\<lparr>root := Node 0 [Node 1 [Node 2 [Node 3 []], Node 4 [Fragment ''<b>hi</b>''], Node 5 [], Node 6 []]],
                 trace := trace demo @ [SetInnerHTML 4 ''<b>hi</b>'']\<rparr>)"
proof -
  have d: "distinct (ids (root demo))" by (simp add: demo_tree)
  have s: "subtree (root demo) [0, 1] = Some (Node 4 [])" by (simp add: demo_tree)
  have r1: "replace_at (Fragment ''<b>hi</b>'') [0, 1] (root demo)
              = Node 0 [Node 1 [Node 2 [Node 3 []], Fragment ''<b>hi</b>'', Node 5 [], Node 6 []]]"
    by (simp add: demo_tree)
  have r2: "replace_at (Node 4 [Fragment ''<b>hi</b>'']) [0, 1] (root demo)
              = Node 0 [Node 1 [Node 2 [Node 3 []], Node 4 [Fragment ''<b>hi</b>''], Node 5 [], Node 6 []]]"
    by (simp add: demo_tree)
  from swap_strategies[OF d s, of "''<b>hi</b>''" "''innerHTML''"]
    swap_strategies[OF d s, of "''<b>hi</b>''" "''beforeend''"]
  show ?thesis unfolding r1 r2 by simp
qed

text \<open>Two targets that are not \<^verbatim>\<open>null\<close> and are not replaced: the root element, for which
  the browser refuses, and an element that an earlier swap has already taken out of the
  tree, for which nothing happens.\<close>

theorem swap_strategies_counterexample:
  "applySwap demo (Some 0) ''outerHTML'' ''<p>b</p>'' = Inl NoModificationAllowedError
   \<and> applySwap demo (Some 4) ''outerHTML'' ''<p>a</p>''
       = Inr (demo\<lparr>root := Node 0 [Node 1 [Node 2 [Node 3 []], Fragment ''<p>a</p>'', Node 5 [], Node 6 []]],
                   trace := [SetOuterHTML 4 ''<p>a</p>'']\<rparr>)
   \<and> applySwap
         (demo\<lparr>root := Node 0 [Node 1 [Node 2 [Node 3 []], Fragment ''<p>a</p>'', Node 5 [], Node 6 []]],
               trace := [SetOuterHTML 4 ''<p>a</p>'']\<rparr>)
         (Some 4) ''outerHTML'' ''<p>b</p>''
       = Inr (demo\<lparr>root := Node 0 [Node 1 [Node 2 [Node 3 []], Fragment ''<p>a</p>'', Node 5 [], Node 6 []]],
                   trace := [SetOuterHTML 4 ''<p>a</p>'', SetOuterHTML 4 ''<p>b</p>'']\<rparr>)"
  by (simp add: applySwap_def set_outerHTML_def is_root_def demo_def page_def)

end
